theory Spec2Isabelle
  imports Main
begin

section \<open>Snake Evolution: the session, the board and the question bank\<close>

text \<open>
  A shallow embedding of \<^verbatim>\<open>src/snake_evolution.py\<close>: the fields of class
  \<^verbatim>\<open>SnakeGame\<close> that the orchestration engine owns become a record, each method
  becomes a function that takes the record and returns the updated one. Python integers
  are \<open>int\<close>. Rendering (the \<^verbatim>\<open>draw_*\<close> methods, fonts, the screen) and the private
  fields of the mini-games are outside the model: no method below reads or writes them.
\<close>

subsection \<open>Game constants\<close>

definition WINDOW_WIDTH :: int where "WINDOW_WIDTH = 800"
definition WINDOW_HEIGHT :: int where "WINDOW_HEIGHT = 600"
definition GRID_SIZE :: int where "GRID_SIZE = 20"
definition GRID_WIDTH :: int where "GRID_WIDTH = WINDOW_WIDTH div GRID_SIZE"
definition GRID_HEIGHT :: int where "GRID_HEIGHT = WINDOW_HEIGHT div GRID_SIZE"

subsection \<open>Enumerations and data classes\<close>

datatype Direction = UP | DOWN | LEFT | RIGHT

text \<open>The \<^verbatim>\<open>value\<close> of a member of the enum \<^verbatim>\<open>Direction\<close>: its unit delta.\<close>

fun Direction_value :: "Direction \<Rightarrow> int \<times> int" where
  "Direction_value UP = (0, -1)"
| "Direction_value DOWN = (0, 1)"
| "Direction_value LEFT = (-1, 0)"
| "Direction_value RIGHT = (1, 0)"

datatype GameState =
    MENU | PLAYING | CATEGORY_SELECT | EDUCATION_GAME_SELECT | EDUCATION_GAME_PLAYING
  | PYTHON_GAME_SELECT | PYTHON_GAME_PLAYING | GAME_OVER | PAUSED

type_synonym cell = "int \<times> int"

text \<open>
  An answer or an option of a question is a Python value: an integer for the generated
  arithmetic questions, a string for the canned ones. Python's \<^verbatim>\<open>==\<close> between an
  integer and a string is \<^verbatim>\<open>False\<close>, as the equality of this datatype is.
\<close>

datatype pyval = IntVal int | StrVal string

text \<open>
  The prompt of a question is an f-string over the operands drawn; the model keeps the
  operands and the operator rather than the rendered characters.
\<close>

datatype prompt =
    Plus int int | Minus int int | Times int int | Divide int int
  | Squared int | SquareRoot int | Text string

record Question =
  question :: prompt
  answer :: pyval
  options :: "pyval list"
  difficulty :: int
  subject :: string

record SnakeGame =
  state :: GameState
  language :: string
  selected_category :: "string option"
  current_education_game :: "string option"
  current_python_game :: "string option"
  snake :: "cell list"
  direction :: Direction
  next_direction :: Direction
  food_pos :: "cell option"
  current_question :: "Question option"
  question_answered :: bool
  score :: int
  level :: int
  questions_correct :: int
  questions_total :: int
  streak :: int
  best_streak :: int
  last_move_time :: int
  move_delay :: int

datatype py_error = IndexError

subsection \<open>The random source\<close>

text \<open>
  The module \<^verbatim>\<open>random\<close> is modelled by an infinite sequence of raw draws and a
  position in it: every call of \<^verbatim>\<open>randint\<close> or \<^verbatim>\<open>choice\<close> reads the draw at the
  position and moves one further. A raw draw is any natural number; the call maps it
  into its range, so every result is one the library can return and every value of the
  range is the image of some draw. Draws made by the mini-games are not part of the
  sequence.
\<close>

type_synonym draws = "nat \<Rightarrow> nat"

definition randint :: "int \<Rightarrow> int \<Rightarrow> nat \<Rightarrow> int" where
  "randint a b r = a + int (r mod nat (b - a + 1))"

definition choice :: "'a list \<Rightarrow> nat \<Rightarrow> 'a" where
  "choice xs r = xs ! (r mod length xs)"

subsection \<open>The board\<close>

definition in_grid :: "cell \<Rightarrow> bool" where
  "in_grid c \<longleftrightarrow> 0 \<le> fst c \<and> fst c < GRID_WIDTH \<and> 0 \<le> snd c \<and> snd c < GRID_HEIGHT"

text \<open>
  \<^verbatim>\<open>generate_food\<close>: draw a column and a row until the cell is not on the snake. The
  loop has no bound, so the model is a partial function: \<open>None\<close> is the run that never
  leaves the loop.
\<close>

partial_function (option) generate_food_loop ::
  "draws \<Rightarrow> nat \<Rightarrow> cell list \<Rightarrow> (cell \<times> nat) option" where
  "generate_food_loop rs p cells =
     (if (randint 0 (GRID_WIDTH - 1) (rs p), randint 0 (GRID_HEIGHT - 1) (rs (p + 1)))
           \<notin> set cells
      then Some ((randint 0 (GRID_WIDTH - 1) (rs p),
                  randint 0 (GRID_HEIGHT - 1) (rs (p + 1))), p + 2)
      else generate_food_loop rs (p + 2) cells)"

declare generate_food_loop.simps [code]

definition generate_food :: "draws \<Rightarrow> nat \<Rightarrow> SnakeGame \<Rightarrow> (SnakeGame \<times> nat) option" where
  "generate_food rs p g =
     (case generate_food_loop rs p (snake g) of
        None \<Rightarrow> None
      | Some (c, p') \<Rightarrow> Some (g\<lparr>food_pos := Some c\<rparr>, p'))"

text \<open>\<^verbatim>\<open>grow_snake\<close>: \<^verbatim>\<open>self.snake[-1]\<close> raises on an empty list.\<close>

definition grow_snake :: "SnakeGame \<Rightarrow> py_error + SnakeGame" where
  "grow_snake g =
     (case snake g of
        [] \<Rightarrow> Inl IndexError
      | _ # _ \<Rightarrow> Inr (g\<lparr>snake := snake g @ [last (snake g)]\<rparr>))"

definition game_over :: "SnakeGame \<Rightarrow> SnakeGame" where
  "game_over g = g\<lparr>state := GAME_OVER\<rparr>"

text \<open>
  \<^verbatim>\<open>update_snake\<close>; \<open>current_time\<close> is what \<^verbatim>\<open>pygame.time.get_ticks()\<close> returns.
  \<^verbatim>\<open>self.snake[0]\<close> raises on an empty list.
\<close>

definition update_snake :: "int \<Rightarrow> SnakeGame \<Rightarrow> py_error + SnakeGame" where
  "update_snake current_time g =
     (if current_time - last_move_time g < move_delay g then Inr g
      else
        let g1 = g\<lparr>last_move_time := current_time, direction := next_direction g\<rparr> in
        (case snake g1 of
           [] \<Rightarrow> Inl IndexError
         | (head_x, head_y) # _ \<Rightarrow>
             let new_head = (head_x + fst (Direction_value (direction g1)),
                             head_y + snd (Direction_value (direction g1))) in
             if fst new_head < 0 \<or> fst new_head \<ge> GRID_WIDTH \<or>
                snd new_head < 0 \<or> snd new_head \<ge> GRID_HEIGHT
             then Inr (game_over g1)
             else if new_head \<in> set (snake g1) then Inr (game_over g1)
             else
               let g2 = g1\<lparr>snake := new_head # snake g1\<rparr> in
               if Some new_head = food_pos g2 then Inr (g2\<lparr>state := CATEGORY_SELECT\<rparr>)
               else Inr (g2\<lparr>snake := butlast (snake g2)\<rparr>)))"

text \<open>
  The cell the next moving tick computes as the new head: the head plus the delta of
  the heading the tick has just taken over from \<^verbatim>\<open>next_direction\<close>.
\<close>

definition new_head_of :: "SnakeGame \<Rightarrow> cell option" where
  "new_head_of g =
     (case snake g of
        [] \<Rightarrow> None
      | (head_x, head_y) # _ \<Rightarrow>
          Some (head_x + fst (Direction_value (next_direction g)),
                head_y + snd (Direction_value (next_direction g))))"

subsection \<open>Scoring: answering the current question\<close>

text \<open>Python's list indexing: a negative index counts from the end.\<close>

definition py_index :: "'a list \<Rightarrow> int \<Rightarrow> py_error + 'a" where
  "py_index xs i =
     (if 0 \<le> i \<and> i < int (length xs) then Inr (xs ! nat i)
      else if i < 0 \<and> - int (length xs) \<le> i then Inr (xs ! nat (int (length xs) + i))
      else Inl IndexError)"

text \<open>
  \<^verbatim>\<open>answer_question\<close>. A \<^verbatim>\<open>Question\<close> object is always truthy, so
  \<^verbatim>\<open>not self.current_question\<close> holds exactly when the field is \<^verbatim>\<open>None\<close>. The
  result is \<open>None\<close> when the food loop never returns, \<open>Some (Inl e)\<close> when the method
  raises \<open>e\<close>, and the updated game with the new position in the draws otherwise.
\<close>

definition answer_question ::
  "draws \<Rightarrow> nat \<Rightarrow> int \<Rightarrow> SnakeGame \<Rightarrow> (py_error + SnakeGame \<times> nat) option" where
  "answer_question rs p option_index g =
     (case current_question g of
        None \<Rightarrow> Some (Inr (g, p))
      | Some q \<Rightarrow>
          if option_index \<ge> int (length (options q)) then Some (Inr (g, p))
          else
            (case py_index (options q) option_index of
               Inl e \<Rightarrow> Some (Inl e)
             | Inr selected_answer \<Rightarrow>
                 let g1 = g\<lparr>questions_total := questions_total g + 1\<rparr>;
                     correct_answer = answer q;
                     is_correct = (selected_answer = correct_answer)
                 in
                 if is_correct then
                   let g2 = g1\<lparr>questions_correct := questions_correct g1 + 1\<rparr>;
                       g3 = g2\<lparr>streak := streak g2 + 1\<rparr>;
                       g4 = g3\<lparr>best_streak := max (best_streak g3) (streak g3)\<rparr>;
                       bonus = min (streak g4 * 2) 20;
                       g5 = g4\<lparr>score := score g4 + (10 + bonus)\<rparr>
                   in
                   (case grow_snake g5 of
                      Inl e \<Rightarrow> Some (Inl e)
                    | Inr g6 \<Rightarrow>
                        (case generate_food rs p g6 of
                           None \<Rightarrow> None
                         | Some (g7, p') \<Rightarrow>
                             let g8 = g7\<lparr>question_answered := True, state := PLAYING\<rparr>;
                                 g9 = (if questions_correct g8 mod 5 = 0
                                       then g8\<lparr>level := level g8 + 1,
                                               move_delay := max 100 (move_delay g8 - 10)\<rparr>
                                       else g8)
                             in Some (Inr (g9\<lparr>current_question := None\<rparr>, p'))))
                 else
                   let g2 = g1\<lparr>streak := 0\<rparr>
                   in Some (Inr (g2\<lparr>current_question := None\<rparr>, p))))"

subsection \<open>Starting and restarting a round\<close>

definition start_game :: "draws \<Rightarrow> nat \<Rightarrow> SnakeGame \<Rightarrow> (SnakeGame \<times> nat) option" where
  "start_game rs p g =
     generate_food rs p
       (g\<lparr>state := PLAYING,
          snake := [(GRID_WIDTH div 2, GRID_HEIGHT div 2)],
          direction := RIGHT,
          next_direction := RIGHT,
          score := 0,
          level := 1,
          questions_correct := 0,
          questions_total := 0,
          streak := 0,
          selected_category := None,
          current_education_game := None,
          current_python_game := None\<rparr>)"

definition restart_game :: "draws \<Rightarrow> nat \<Rightarrow> SnakeGame \<Rightarrow> (SnakeGame \<times> nat) option" where
  "restart_game rs p g = start_game rs p g"

text \<open>
  The fields \<^verbatim>\<open>__init__\<close> sets before it calls \<^verbatim>\<open>generate_food\<close>, and the whole
  constructor.
\<close>

definition init_fields :: SnakeGame where
  "init_fields =
     \<lparr>state = MENU, language = ''english'', selected_category = None,
      current_education_game = None, current_python_game = None,
      snake = [(GRID_WIDTH div 2, GRID_HEIGHT div 2)],
      direction = RIGHT, next_direction = RIGHT,
      food_pos = None, current_question = None, question_answered = False,
      score = 0, level = 1, questions_correct = 0, questions_total = 0,
      streak = 0, best_streak = 0, last_move_time = 0, move_delay = 200\<rparr>"

definition init :: "draws \<Rightarrow> nat \<Rightarrow> (SnakeGame \<times> nat) option" where
  "init rs p = generate_food rs p init_fields"

subsection \<open>Input handling and the main loop\<close>

datatype key =
    K_SPACE | K_l | K_UP | K_DOWN | K_LEFT | K_RIGHT | K_p
  | K_1 | K_2 | K_3 | K_4 | K_5 | K_b | K_r | K_q | K_ESCAPE | K_other nat

datatype event = QUIT | KEYDOWN key | OTHER_EVENT

text \<open>
  \<^verbatim>\<open>start_education_game\<close> and \<^verbatim>\<open>start_python_game\<close> set the mode and initialise the
  private fields of the chosen mini-game; \<^verbatim>\<open>handle_education_game_input\<close> and
  \<^verbatim>\<open>handle_python_game_input\<close> pass the event to the mini-game and handle the escape
  key. The private fields are outside the model.
\<close>

definition start_education_game :: "SnakeGame \<Rightarrow> SnakeGame" where
  "start_education_game g = g\<lparr>state := EDUCATION_GAME_PLAYING\<rparr>"

definition start_python_game :: "SnakeGame \<Rightarrow> SnakeGame" where
  "start_python_game g = g\<lparr>state := PYTHON_GAME_PLAYING\<rparr>"

definition handle_education_game_input :: "key \<Rightarrow> SnakeGame \<Rightarrow> SnakeGame" where
  "handle_education_game_input k g =
     (if k = K_ESCAPE then g\<lparr>state := EDUCATION_GAME_SELECT\<rparr> else g)"

definition handle_python_game_input :: "key \<Rightarrow> SnakeGame \<Rightarrow> SnakeGame" where
  "handle_python_game_input k g =
     (if k = K_ESCAPE then g\<lparr>state := PYTHON_GAME_SELECT\<rparr> else g)"

text \<open>
  The body of the event loop of \<^verbatim>\<open>handle_input\<close> for one key press. The flag is
  \<open>False\<close> where the method returns \<^verbatim>\<open>False\<close> at once.
\<close>

definition handle_keydown ::
  "draws \<Rightarrow> nat \<Rightarrow> key \<Rightarrow> SnakeGame \<Rightarrow> (bool \<times> SnakeGame \<times> nat) option" where
  "handle_keydown rs p k g =
     (case state g of
        MENU \<Rightarrow>
          if k = K_SPACE then
            (case start_game rs p g of None \<Rightarrow> None | Some (g', p') \<Rightarrow> Some (True, g', p'))
          else if k = K_l then
            Some (True,
                  g\<lparr>language := (if language g = ''english'' then ''tamil'' else ''english'')\<rparr>,
                  p)
          else Some (True, g, p)
      | PLAYING \<Rightarrow>
          if k = K_UP \<and> direction g \<noteq> DOWN then Some (True, g\<lparr>next_direction := UP\<rparr>, p)
          else if k = K_DOWN \<and> direction g \<noteq> UP then Some (True, g\<lparr>next_direction := DOWN\<rparr>, p)
          else if k = K_LEFT \<and> direction g \<noteq> RIGHT then Some (True, g\<lparr>next_direction := LEFT\<rparr>, p)
          else if k = K_RIGHT \<and> direction g \<noteq> LEFT then Some (True, g\<lparr>next_direction := RIGHT\<rparr>, p)
          else if k = K_p then Some (True, g\<lparr>state := PAUSED\<rparr>, p)
          else Some (True, g, p)
      | CATEGORY_SELECT \<Rightarrow>
          if k = K_1 then
            Some (True, g\<lparr>selected_category := Some ''education'',
                           state := EDUCATION_GAME_SELECT\<rparr>, p)
          else if k = K_2 then
            Some (True, g\<lparr>selected_category := Some ''python'',
                           state := PYTHON_GAME_SELECT\<rparr>, p)
          else Some (True, g, p)
      | EDUCATION_GAME_SELECT \<Rightarrow>
          if k = K_1 then
            Some (True, start_education_game (g\<lparr>current_education_game := Some ''math_wizard''\<rparr>), p)
          else if k = K_2 then
            Some (True, start_education_game (g\<lparr>current_education_game := Some ''science_lab''\<rparr>), p)
          else if k = K_3 then
            Some (True, start_education_game (g\<lparr>current_education_game := Some ''geography_quest''\<rparr>), p)
          else if k = K_4 then
            Some (True, start_education_game (g\<lparr>current_education_game := Some ''history_hunter''\<rparr>), p)
          else if k = K_5 then
            Some (True, start_education_game (g\<lparr>current_education_game := Some ''word_master''\<rparr>), p)
          else if k = K_b then Some (True, g\<lparr>state := CATEGORY_SELECT\<rparr>, p)
          else Some (True, g, p)
      | PYTHON_GAME_SELECT \<Rightarrow>
          if k = K_1 then
            Some (True, start_python_game (g\<lparr>current_python_game := Some ''tic_tac_toe''\<rparr>), p)
          else if k = K_2 then
            Some (True, start_python_game (g\<lparr>current_python_game := Some ''space_shooter''\<rparr>), p)
          else if k = K_3 then
            Some (True, start_python_game (g\<lparr>current_python_game := Some ''car_racing''\<rparr>), p)
          else if k = K_4 then
            Some (True, start_python_game (g\<lparr>current_python_game := Some ''zombie_dash''\<rparr>), p)
          else if k = K_5 then
            Some (True, start_python_game (g\<lparr>current_python_game := Some ''ball_run''\<rparr>), p)
          else if k = K_b then Some (True, g\<lparr>state := CATEGORY_SELECT\<rparr>, p)
          else Some (True, g, p)
      | EDUCATION_GAME_PLAYING \<Rightarrow> Some (True, handle_education_game_input k g, p)
      | PYTHON_GAME_PLAYING \<Rightarrow> Some (True, handle_python_game_input k g, p)
      | PAUSED \<Rightarrow>
          if k = K_p then Some (True, g\<lparr>state := PLAYING\<rparr>, p) else Some (True, g, p)
      | GAME_OVER \<Rightarrow>
          if k = K_r then
            (case restart_game rs p g of None \<Rightarrow> None | Some (g', p') \<Rightarrow> Some (True, g', p'))
          else if k = K_q then Some (False, g, p)
          else Some (True, g, p))"

text \<open>
  \<^verbatim>\<open>handle_input\<close>: the events of one frame in order; a quit event, or the quit key
  on the game-over screen, returns \<^verbatim>\<open>False\<close> and leaves the later events unread.
\<close>

fun handle_input ::
  "draws \<Rightarrow> nat \<Rightarrow> event list \<Rightarrow> SnakeGame \<Rightarrow> (bool \<times> SnakeGame \<times> nat) option" where
  "handle_input rs p [] g = Some (True, g, p)"
| "handle_input rs p (QUIT # evs) g = Some (False, g, p)"
| "handle_input rs p (OTHER_EVENT # evs) g = handle_input rs p evs g"
| "handle_input rs p (KEYDOWN k # evs) g =
     (case handle_keydown rs p k g of
        None \<Rightarrow> None
      | Some (running, g', p') \<Rightarrow>
          if running then handle_input rs p' evs g' else Some (False, g', p'))"

text \<open>
  One pass through the body of the \<^verbatim>\<open>while\<close> loop of \<^verbatim>\<open>run\<close>: the events, then
  the update of the active mode. Only \<^verbatim>\<open>PLAYING\<close> updates the snake; the mini-game
  updates touch their private fields alone.
\<close>

definition run_iteration ::
  "draws \<Rightarrow> nat \<Rightarrow> int \<Rightarrow> event list \<Rightarrow> SnakeGame \<Rightarrow>
     (py_error + bool \<times> SnakeGame \<times> nat) option" where
  "run_iteration rs p current_time evs g =
     (case handle_input rs p evs g of
        None \<Rightarrow> None
      | Some (running, g', p') \<Rightarrow>
          if state g' = PLAYING then
            (case update_snake current_time g' of
               Inl e \<Rightarrow> Some (Inl e)
             | Inr g'' \<Rightarrow> Some (Inr (running, g'', p')))
          else Some (Inr (running, g', p')))"

subsection \<open>The question bank: arithmetic questions\<close>

text \<open>
  \<^verbatim>\<open>random.shuffle\<close> as the standard library has it: for \<open>i\<close> from the last index
  down to 1, draw \<open>j\<close> in \<open>0..i\<close> and swap the elements at \<open>i\<close> and \<open>j\<close>.
\<close>

fun shuffle_from :: "draws \<Rightarrow> nat \<Rightarrow> nat \<Rightarrow> 'a list \<Rightarrow> 'a list \<times> nat" where
  "shuffle_from rs p 0 xs = (xs, p)"
| "shuffle_from rs p (Suc i) xs =
     shuffle_from rs (p + 1) i
       (xs[Suc i := xs ! (rs p mod (Suc i + 1)), rs p mod (Suc i + 1) := xs ! Suc i])"

definition shuffle :: "draws \<Rightarrow> nat \<Rightarrow> 'a list \<Rightarrow> 'a list \<times> nat" where
  "shuffle rs p xs = shuffle_from rs p (length xs - 1) xs"

text \<open>
  \<^verbatim>\<open>int(n ** 0.5)\<close> for the perfect squares the source draws from: the number of
  positive \<open>k\<close> with \<open>k * k \<le> n\<close>, which is the square root rounded down (the floating
  point power is exact on these small squares).
\<close>

definition int_sqrt :: "int \<Rightarrow> int" where
  "int_sqrt n = int (length (filter (\<lambda>k. k * k \<le> nat n) [1..<Suc (nat n)]))"

definition perfect_squares :: "int list" where
  "perfect_squares = [4, 9, 16, 25, 36, 49, 64, 81, 100]"

text \<open>
  The two anonymous functions of the list \<^verbatim>\<open>operations\<close>. Each draws twice: once for
  the number shown in the prompt and once more for the number the answer is computed
  from.
\<close>

definition square_operation :: "draws \<Rightarrow> nat \<Rightarrow> (prompt \<times> int) \<times> nat" where
  "square_operation rs p =
     ((Squared (randint 1 20 (rs p)), (randint 1 20 (rs (p + 1)))\<^sup>2), p + 2)"

definition root_operation :: "draws \<Rightarrow> nat \<Rightarrow> (prompt \<times> int) \<times> nat" where
  "root_operation rs p =
     ((SquareRoot (choice perfect_squares (rs p)),
       int_sqrt (choice perfect_squares (rs (p + 1)))), p + 2)"

text \<open>
  The first part of \<^verbatim>\<open>generate_math_question\<close>: the prompt and the answer by
  difficulty tier. The operator characters of the middle tier are written \<open>*\<close> and
  \<open>/\<close> here.
\<close>

definition math_problem :: "int \<Rightarrow> draws \<Rightarrow> nat \<Rightarrow> (prompt \<times> int) \<times> nat" where
  "math_problem dif rs p =
     (if dif \<le> 3 then
        let a = randint 1 20 (rs p);
            b = randint 1 20 (rs (p + 1));
            operation = choice [''+'', ''-''] (rs (p + 2))
        in
        if operation = ''+'' then ((Plus a b, a + b), p + 3)
        else
          let a' = (if a < b then b else a);
              b' = (if a < b then a else b)
          in ((Minus a' b', a' - b'), p + 3)
      else if dif \<le> 6 then
        let a = randint 2 12 (rs p);
            b = randint 2 12 (rs (p + 1));
            operation = choice [''*'', ''/''] (rs (p + 2))
        in
        if operation = ''*'' then ((Times a b, a * b), p + 3)
        else ((Divide (a * b) b, a), p + 3)
      else
        (choice [square_operation, root_operation] (rs p)) rs (p + 1))"

text \<open>
  The loop that adds wrong options until there are four. It has no bound: \<open>None\<close> is
  the run that keeps drawing offsets the test rejects.
\<close>

partial_function (option) wrong_options_loop ::
  "draws \<Rightarrow> nat \<Rightarrow> int \<Rightarrow> int list \<Rightarrow> (int list \<times> nat) option" where
  "wrong_options_loop rs p ans opts =
     (if length opts < 4 then
        (if ans + randint (- 10) 10 (rs p) \<noteq> ans \<and>
            ans + randint (- 10) 10 (rs p) \<notin> set opts \<and>
            ans + randint (- 10) 10 (rs p) \<ge> 0
         then wrong_options_loop rs (p + 1) ans (opts @ [ans + randint (- 10) 10 (rs p)])
         else wrong_options_loop rs (p + 1) ans opts)
      else Some (opts, p))"

declare wrong_options_loop.simps [code]

definition generate_math_question ::
  "int \<Rightarrow> draws \<Rightarrow> nat \<Rightarrow> (Question \<times> nat) option" where
  "generate_math_question dif rs p =
     (case math_problem dif rs p of
        ((text, ans), p1) \<Rightarrow>
          (case wrong_options_loop rs p1 ans [ans] of
             None \<Rightarrow> None
           | Some (opts, p2) \<Rightarrow>
               (case shuffle rs p2 opts of
                  (opts', p3) \<Rightarrow>
                    Some (\<lparr>question = text, answer = IntVal ans,
                           options = map IntVal opts', difficulty = dif,
                           subject = ''math''\<rparr>, p3))))"

subsection \<open>Vocabulary of the statements\<close>

text \<open>
  The snake is well placed when every cell is on the grid and no two cells are equal.
\<close>

definition snake_ok :: "cell list \<Rightarrow> bool" where
  "snake_ok cells \<longleftrightarrow> list_all in_grid cells \<and> distinct cells"

text \<open>
  The only equal cells of the snake are copies of its tail cell at the end of the list:
  each cell is either absent from the cells behind it, or every cell behind it is a copy
  of it.
\<close>

fun tail_copies_only :: "cell list \<Rightarrow> bool" where
  "tail_copies_only [] \<longleftrightarrow> True"
| "tail_copies_only (c # cells) \<longleftrightarrow>
     (c \<notin> set cells \<and> tail_copies_only cells) \<or> list_all (\<lambda>d. d = c) cells"

text \<open>
  The heading a key asks for and the reverse of a heading, as the four guards of the
  \<^verbatim>\<open>PLAYING\<close> branch of \<^verbatim>\<open>handle_input\<close> pair them.
\<close>

fun opposite :: "Direction \<Rightarrow> Direction" where
  "opposite UP = DOWN"
| "opposite DOWN = UP"
| "opposite LEFT = RIGHT"
| "opposite RIGHT = LEFT"

fun direction_key :: "Direction \<Rightarrow> key" where
  "direction_key UP = K_UP"
| "direction_key DOWN = K_DOWN"
| "direction_key LEFT = K_LEFT"
| "direction_key RIGHT = K_RIGHT"

text \<open>
  The cell the food loop draws at a position of the random source. The loop returns
  when some draw, two positions apart from the last, is off the snake.
\<close>

definition food_draw :: "draws \<Rightarrow> nat \<Rightarrow> cell" where
  "food_draw rs p = (randint 0 (GRID_WIDTH - 1) (rs p), randint 0 (GRID_HEIGHT - 1) (rs (p + 1)))"

definition finds_free_cell :: "draws \<Rightarrow> nat \<Rightarrow> cell list \<Rightarrow> bool" where
  "finds_free_cell rs p cells \<longleftrightarrow> (\<exists>k. food_draw rs (p + 2 * k) \<notin> set cells)"

definition keeps_finding :: "draws \<Rightarrow> cell list \<Rightarrow> bool" where
  "keeps_finding rs cells \<longleftrightarrow> (\<forall>p. finds_free_cell rs p cells)"

text \<open>
  A player who answers a list of questions one after the other: each question is made
  current and \<^verbatim>\<open>answer_question\<close> is called with the chosen index. An index picks the
  answer when it passes the guard of \<^verbatim>\<open>answer_question\<close> and the option it selects is
  the answer of the question.
\<close>

fun answer_all ::
  "draws \<Rightarrow> nat \<Rightarrow> (Question \<times> int) list \<Rightarrow> SnakeGame \<Rightarrow>
     (py_error + SnakeGame \<times> nat) option" where
  "answer_all rs p [] g = Some (Inr (g, p))"
| "answer_all rs p ((q, i) # qs) g =
     (case answer_question rs p i (g\<lparr>current_question := Some q\<rparr>) of
        None \<Rightarrow> None
      | Some (Inl e) \<Rightarrow> Some (Inl e)
      | Some (Inr (g', p')) \<Rightarrow> answer_all rs p' qs g')"

definition picks_answer :: "Question \<Rightarrow> int \<Rightarrow> bool" where
  "picks_answer q i \<longleftrightarrow>
     i < int (length (options q)) \<and> py_index (options q) i = Inr (answer q)"

text \<open>
  The score, the streak, the count of correct answers, the level and the move delay of a
  game, what one correct answer does to them, and the whole game after a correct answer
  with the new food at \<open>c\<close>; lemma \<open>answer_question_correct\<close> proves that
  \<^verbatim>\<open>answer_question\<close> computes it.
\<close>

definition stats :: "SnakeGame \<Rightarrow> int \<times> int \<times> int \<times> int \<times> int" where
  "stats g = (score g, streak g, questions_correct g, level g, move_delay g)"

fun stats_step :: "int \<times> int \<times> int \<times> int \<times> int \<Rightarrow> int \<times> int \<times> int \<times> int \<times> int" where
  "stats_step (sc, st, qc, lv, md) =
     (sc + (10 + min ((st + 1) * 2) 20), st + 1, qc + 1,
      (if (qc + 1) mod 5 = 0 then lv + 1 else lv),
      (if (qc + 1) mod 5 = 0 then max 100 (md - 10) else md))"

definition after_correct :: "cell \<Rightarrow> SnakeGame \<Rightarrow> SnakeGame" where
  "after_correct c g =
     g\<lparr>questions_total := questions_total g + 1,
       questions_correct := questions_correct g + 1,
       streak := streak g + 1,
       best_streak := max (best_streak g) (streak g + 1),
       score := score g + (10 + min ((streak g + 1) * 2) 20),
       snake := snake g @ [last (snake g)],
       food_pos := Some c,
       question_answered := True,
       state := PLAYING,
       level := (if (questions_correct g + 1) mod 5 = 0 then level g + 1 else level g),
       move_delay := (if (questions_correct g + 1) mod 5 = 0
                      then max 100 (move_delay g - 10) else move_delay g),
       current_question := None\<rparr>"

text \<open>The fields \<^verbatim>\<open>start_game\<close> assigns before it draws the food.\<close>

definition reset_fields ::
  "SnakeGame \<Rightarrow> GameState \<times> cell list \<times> Direction \<times> Direction \<times> int \<times> int \<times> int \<times> int \<times> int \<times>
     string option \<times> string option \<times> string option" where
  "reset_fields g =
     (state g, snake g, direction g, next_direction g, score g, level g,
      questions_correct g, questions_total g, streak g,
      selected_category g, current_education_game g, current_python_game g)"

text \<open>
  A well-formed arithmetic question: four options, no two equal, each a non-negative
  integer, the answer among them and itself a non-negative integer.
\<close>

fun is_nonneg_int :: "pyval \<Rightarrow> bool" where
  "is_nonneg_int (IntVal n) \<longleftrightarrow> 0 \<le> n"
| "is_nonneg_int (StrVal s) \<longleftrightarrow> False"

definition good_math_question :: "Question \<Rightarrow> bool" where
  "good_math_question q \<longleftrightarrow>
     length (options q) = 4 \<and> distinct (options q) \<and> list_all is_nonneg_int (options q) \<and>
     answer q \<in> set (options q) \<and> is_nonneg_int (answer q)"

text \<open>
  The test of the loop that adds wrong options, and what the loop keeps true of the
  options so far. A random source lets the loop finish when each of the 21 offsets keeps
  turning up in its draws.
\<close>

definition offset_ok :: "int \<Rightarrow> int list \<Rightarrow> int \<Rightarrow> bool" where
  "offset_ok ans opts w \<longleftrightarrow> w \<noteq> ans \<and> w \<notin> set opts \<and> 0 \<le> w"

definition opts_ok :: "int \<Rightarrow> int list \<Rightarrow> bool" where
  "opts_ok ans opts \<longleftrightarrow> distinct opts \<and> list_all (\<lambda>x. 0 \<le> x) opts \<and> ans \<in> set opts"

definition every_offset_recurs :: "draws \<Rightarrow> bool" where
  "every_offset_recurs rs \<longleftrightarrow> (\<forall>p v. v < 21 \<longrightarrow> (\<exists>k. rs (p + k) mod 21 = v))"

subsection \<open>Concrete games\<close>

text \<open>
  Scenario A of the specification with the food right ahead of the head, and scenario B:
  a snake at the left wall heading left.
\<close>

definition scenario_A :: SnakeGame where
  "scenario_A = init_fields\<lparr>state := PLAYING, snake := [(10, 10)], food_pos := Some (11, 10)\<rparr>"

definition scenario_B :: SnakeGame where
  "scenario_B = init_fields\<lparr>state := PLAYING, snake := [(0, 10), (1, 10)],
      direction := LEFT, next_direction := LEFT, food_pos := Some (5, 5)\<rparr>"

text \<open>
  A question with four options, a fresh game that has it as the current question, the
  same game after two correct answers, a game that ended at level 2, and a random source
  whose \<open>n\<close>-th raw draw is \<open>n\<close>.
\<close>

definition quiz :: Question where
  "quiz = \<lparr>question = Plus 2 3, answer = IntVal 5,
           options = [IntVal 5, IntVal 7, IntVal 1, IntVal 9],
           difficulty = 1, subject = ''math''\<rparr>"

definition quiz_start :: SnakeGame where
  "quiz_start = init_fields\<lparr>state := PLAYING, food_pos := Some (3, 10),
                             current_question := Some quiz\<rparr>"

definition quiz_streak :: SnakeGame where
  "quiz_streak = quiz_start\<lparr>score := 26, questions_correct := 2, questions_total := 2,
                             streak := 2, best_streak := 2\<rparr>"

definition counting :: draws where
  "counting n = n"

definition played :: SnakeGame where
  "played = init_fields\<lparr>state := GAME_OVER, snake := [(39, 3), (38, 3)], food_pos := Some (7, 7),
      score := 80, level := 2, questions_correct := 5, questions_total := 6, streak := 5,
      best_streak := 5, last_move_time := 9000, move_delay := 190\<rparr>"

section \<open>The board: one tick\<close>

lemmas grid_defs =
  GRID_WIDTH_def GRID_HEIGHT_def WINDOW_WIDTH_def WINDOW_HEIGHT_def GRID_SIZE_def

lemma update_snake_throttled:
  "current_time - last_move_time g < move_delay g \<Longrightarrow> update_snake current_time g = Inr g"
  by (simp add: update_snake_def)

lemma update_snake_collide:
  assumes "move_delay g \<le> current_time - last_move_time g"
    and "new_head_of g = Some h"
    and "\<not> in_grid h \<or> h \<in> set (snake g)"
  shows "update_snake current_time g =
           Inr (g\<lparr>last_move_time := current_time, direction := next_direction g,
                  state := GAME_OVER\<rparr>)"
  using assms
  by (auto simp: update_snake_def new_head_of_def in_grid_def game_over_def Let_def
           split: list.splits)

lemma update_snake_eat:
  assumes "move_delay g \<le> current_time - last_move_time g"
    and "new_head_of g = Some h" and "in_grid h" and "h \<notin> set (snake g)"
    and "food_pos g = Some h"
  shows "update_snake current_time g =
           Inr (g\<lparr>last_move_time := current_time, direction := next_direction g,
                  snake := h # snake g, state := CATEGORY_SELECT\<rparr>)"
  using assms
  by (auto simp: update_snake_def new_head_of_def in_grid_def Let_def split: list.splits)

lemma update_snake_move:
  assumes "move_delay g \<le> current_time - last_move_time g"
    and "new_head_of g = Some h" and "in_grid h" and "h \<notin> set (snake g)"
    and "food_pos g \<noteq> Some h"
  shows "update_snake current_time g =
           Inr (g\<lparr>last_move_time := current_time, direction := next_direction g,
                  snake := h # butlast (snake g)\<rparr>)"
  using assms
  by (auto simp: update_snake_def new_head_of_def in_grid_def Let_def split: list.splits)

lemma new_head_of_nonempty: "new_head_of g = Some h \<Longrightarrow> snake g \<noteq> []"
  by (auto simp: new_head_of_def split: list.splits)

lemma run_iteration_idle:
  "state g \<noteq> PLAYING \<Longrightarrow> run_iteration rs p current_time [] g = Some (Inr (True, g, p))"
  by (simp add: run_iteration_def)

lemma update_snake_empty:
  "move_delay g \<le> current_time - last_move_time g \<Longrightarrow> new_head_of g = None \<Longrightarrow>
   update_snake current_time g = Inl IndexError"
  by (simp add: update_snake_def new_head_of_def Let_def split: list.splits prod.splits)

lemma update_snake_cases:
  assumes "update_snake current_time g = Inr g'"
  obtains (idle) "snake g' = snake g"
  | (eat) h where "in_grid h" "h \<notin> set (snake g)" "snake g' = h # snake g"
  | (move) h where "in_grid h" "h \<notin> set (snake g)" "snake g' = butlast (h # snake g)"
proof (cases "current_time - last_move_time g < move_delay g")
  case True
  with assms have "g' = g" by (simp add: update_snake_throttled)
  then show ?thesis using idle by simp
next
  case False
  then have mv: "move_delay g \<le> current_time - last_move_time g" by simp
  show ?thesis
  proof (cases "new_head_of g")
    case None
    with mv assms show ?thesis by (simp add: update_snake_empty)
  next
    case (Some h)
    show ?thesis
    proof (cases "\<not> in_grid h \<or> h \<in> set (snake g)")
      case True
      from update_snake_collide[OF mv Some True] assms show ?thesis using idle by auto
    next
      case free: False
      show ?thesis
      proof (cases "food_pos g = Some h")
        case True
        from update_snake_eat[OF mv Some _ _ True] free assms
        have "snake g' = h # snake g" by auto
        with free show ?thesis using eat by blast
      next
        case False
        from new_head_of_nonempty[OF Some] have "snake g \<noteq> []" .
        with update_snake_move[OF mv Some _ _ False] free assms
        have "snake g' = butlast (h # snake g)" by auto
        with free show ?thesis using move by blast
      qed
    qed
  qed
qed

text \<open>
  Claim C4. A moving tick in \<^verbatim>\<open>PLAYING\<close> whose new head is off the grid or on a cell
  of the snake ends the round: the mode becomes \<^verbatim>\<open>GAME_OVER\<close>, and the snake, the
  food, the score, the level and the streak are as before. The tick has by then stored
  the time of the move and taken the pending direction over as the heading; nothing
  else changes.
\<close>

theorem tick_collision:
  assumes "state g = PLAYING"
    and "move_delay g \<le> current_time - last_move_time g"
    and "new_head_of g = Some h"
    and "\<not> in_grid h \<or> h \<in> set (snake g)"
  shows "\<exists>g'. update_snake current_time g = Inr g' \<and>
           run_iteration rs p current_time [] g = Some (Inr (True, g', p)) \<and>
           g' = g\<lparr>last_move_time := current_time, direction := next_direction g,
                  state := GAME_OVER\<rparr> \<and>
           state g' = GAME_OVER \<and> snake g' = snake g \<and> food_pos g' = food_pos g \<and>
           score g' = score g \<and> level g' = level g \<and> streak g' = streak g"
  using update_snake_collide[OF assms(2-4)] assms(1)
  by (simp add: run_iteration_def)

theorem tick_collision_witness:
  "new_head_of scenario_B = Some (-1, 10) \<and>
   update_snake 250 scenario_B =
     Inr (scenario_B\<lparr>last_move_time := 250, direction := LEFT, state := GAME_OVER\<rparr>) \<and>
   snake scenario_B = [(0, 10), (1, 10)]"
  using tick_collision[of scenario_B 250 "(-1, 10)"]
  by (simp add: scenario_B_def init_fields_def new_head_of_def in_grid_def)


text \<open>
  Claim C5. A moving tick in \<^verbatim>\<open>PLAYING\<close> whose new head is on the grid and off the
  snake puts the new head in front. On the food cell the tail stays, the snake is one
  longer and the mode becomes \<^verbatim>\<open>CATEGORY_SELECT\<close>, where a later pass of the main
  loop leaves the game as it is; elsewhere the tail goes and the length is as before.
  The food cell is the same either way.
\<close>

theorem tick_no_collision:
  assumes "state g = PLAYING"
    and "move_delay g \<le> current_time - last_move_time g"
    and "new_head_of g = Some h" and "in_grid h" and "h \<notin> set (snake g)"
  shows "\<exists>g'. update_snake current_time g = Inr g' \<and>
           run_iteration rs p current_time [] g = Some (Inr (True, g', p)) \<and>
           food_pos g' = food_pos g \<and>
           (if food_pos g = Some h
            then snake g' = h # snake g \<and> length (snake g') = length (snake g) + 1 \<and>
                 state g' = CATEGORY_SELECT \<and>
                 run_iteration rs p later [] g' = Some (Inr (True, g', p))
            else snake g' = butlast (h # snake g) \<and> length (snake g') = length (snake g) \<and>
                 hd (snake g') = h \<and> state g' = PLAYING)"
proof (cases "food_pos g = Some h")
  case True
  from update_snake_eat[OF assms(2-5) True] assms(1) show ?thesis
    using True by (simp add: run_iteration_def)
next
  case False
  from new_head_of_nonempty[OF assms(3)] have ne: "snake g \<noteq> []" .
  from update_snake_move[OF assms(2-5) False] assms(1) ne show ?thesis
    using False by (simp add: run_iteration_def)
qed

theorem tick_no_collision_witness:
  "(\<exists>g'. update_snake 250 scenario_A = Inr g' \<and>
      snake g' = [(11, 10), (10, 10)] \<and> state g' = CATEGORY_SELECT \<and>
      food_pos g' = Some (11, 10)) \<and>
   (\<exists>g'. update_snake 250 (scenario_A\<lparr>food_pos := Some (3, 3)\<rparr>) = Inr g' \<and>
      snake g' = [(11, 10)] \<and> state g' = PLAYING \<and> food_pos g' = Some (3, 3))"
  using tick_no_collision[of scenario_A 250 "(11, 10)" "\<lambda>n. n" 0 0]
        tick_no_collision[of "scenario_A\<lparr>food_pos := Some (3, 3)\<rparr>" 250 "(11, 10)" "\<lambda>n. n" 0 0]
  by (auto simp: scenario_A_def init_fields_def new_head_of_def in_grid_def grid_defs)


section \<open>The snake stays on the grid and free of overlaps\<close>

lemma snake_ok_butlast: "snake_ok cells \<Longrightarrow> snake_ok (butlast cells)"
  by (auto simp: snake_ok_def list_all_iff distinct_butlast dest: in_set_butlastD)

lemma snake_ok_Cons: "snake_ok (h # cells) \<longleftrightarrow> in_grid h \<and> h \<notin> set cells \<and> snake_ok cells"
  by (auto simp: snake_ok_def)

lemma update_snake_preserves_ok:
  assumes "snake_ok (snake g)" and "update_snake current_time g = Inr g'"
  shows "snake_ok (snake g')"
  using assms(2)
proof (cases rule: update_snake_cases)
  case idle
  with assms(1) show ?thesis by simp
next
  case (eat h)
  with assms(1) show ?thesis by (simp add: snake_ok_Cons)
next
  case (move h)
  with assms(1) have "snake_ok (h # snake g)" by (simp add: snake_ok_Cons)
  then show ?thesis unfolding move(3) by (rule snake_ok_butlast)
qed

lemma grow_snake_Inr:
  "grow_snake g = Inr g1 \<Longrightarrow> snake g \<noteq> [] \<and> g1 = g\<lparr>snake := snake g @ [last (snake g)]\<rparr>"
  by (auto simp: grow_snake_def split: list.splits)

section \<open>Headings, pause and resume\<close>

lemma opposite_neq: "opposite d \<noteq> d"
  by (cases d) simp_all

lemma handle_keydown_reversal:
  "state g = PLAYING \<Longrightarrow>
   handle_keydown rs p (direction_key (opposite (direction g))) g = Some (True, g, p)"
  by (cases "direction g") (simp_all add: handle_keydown_def)

lemma handle_keydown_playing_next:
  assumes "state g = PLAYING" and "next_direction g \<noteq> opposite (direction g)"
    and "handle_keydown rs p k g = Some (running, g1, p1)"
  shows "next_direction g1 \<noteq> opposite (direction g) \<and> direction g1 = direction g \<and>
         snake g1 = snake g"
  using assms
  by (cases "direction g") (auto simp: handle_keydown_def split: if_splits)

lemma update_snake_direction:
  "update_snake current_time g = Inr g' \<Longrightarrow>
   direction g' = (if current_time - last_move_time g < move_delay g then direction g
                   else next_direction g)"
  by (auto simp: update_snake_def game_over_def Let_def split: if_splits list.splits prod.splits)

text \<open>
  Claim C9. In \<^verbatim>\<open>PLAYING\<close>, the key that asks for the reverse of the current heading
  is not taken: the game is exactly as before, the pending direction included. With no
  other turn pending, the heading after the tick of that pass of the main loop is the
  heading before it. Whatever key is pressed, the heading after the next tick is never
  the reverse of the current one, provided the pending direction was not the reverse
  already (which no key and no tick brings about).
\<close>

theorem reversal_guard:
  assumes "state g = PLAYING"
  shows "handle_keydown rs p (direction_key (opposite (direction g))) g = Some (True, g, p) \<and>
         (next_direction g = direction g \<and> snake g \<noteq> [] \<longrightarrow>
            (\<exists>g'. run_iteration rs p current_time
                     [KEYDOWN (direction_key (opposite (direction g)))] g
                   = Some (Inr (True, g', p)) \<and>
                  direction g' = direction g)) \<and>
         (next_direction g \<noteq> opposite (direction g) \<and>
          handle_keydown rs p k g = Some (running, g1, p1) \<and>
          update_snake current_time g1 = Inr g2 \<longrightarrow>
            direction g2 \<noteq> opposite (direction g))"
proof (intro conjI impI)
  show rev: "handle_keydown rs p (direction_key (opposite (direction g))) g = Some (True, g, p)"
    using assms by (rule handle_keydown_reversal)
  {
    assume a: "next_direction g = direction g \<and> snake g \<noteq> []"
    obtain g' where u: "update_snake current_time g = Inr g'"
    proof (cases "update_snake current_time g")
      case (Inl e)
      with a show ?thesis
        by (auto simp: update_snake_def game_over_def Let_def
                 split: if_splits list.splits prod.splits)
    next
      case (Inr g') then show ?thesis using that by blast
    qed
    from update_snake_direction[OF u] a have "direction g' = direction g" by simp
    with u rev assms
    show "\<exists>g'. run_iteration rs p current_time
                     [KEYDOWN (direction_key (opposite (direction g)))] g
                   = Some (Inr (True, g', p)) \<and> direction g' = direction g"
      by (simp add: run_iteration_def)
  }
  {
    assume b: "next_direction g \<noteq> opposite (direction g) \<and>
          handle_keydown rs p k g = Some (running, g1, p1) \<and>
          update_snake current_time g1 = Inr g2"
    with handle_keydown_playing_next[OF assms, of rs p k running g1 p1]
    have "next_direction g1 \<noteq> opposite (direction g)" "direction g1 = direction g" by auto
    moreover from b update_snake_direction[of current_time g1 g2]
    have "direction g2 = direction g1 \<or> direction g2 = next_direction g1" by (auto split: if_splits)
    ultimately show "direction g2 \<noteq> opposite (direction g)"
      using opposite_neq[of "direction g"] by auto
  }
qed

theorem reversal_guard_witness:
  "handle_keydown (\<lambda>n. n) 0 K_LEFT scenario_A = Some (True, scenario_A, 0) \<and>
   (\<exists>g'. run_iteration (\<lambda>n. n) 0 250 [KEYDOWN K_LEFT] scenario_A = Some (Inr (True, g', 0)) \<and>
         direction g' = RIGHT)"
  using reversal_guard[of scenario_A "\<lambda>n. n" 0 250 K_UP True "scenario_A\<lparr>next_direction := UP\<rparr>" 0
                          "scenario_A\<lparr>next_direction := UP, direction := UP, last_move_time := 250, snake := [(10,9)]\<rparr>"]
  by (auto simp: scenario_A_def init_fields_def)

text \<open>
  Claim C10. In \<^verbatim>\<open>PLAYING\<close> the pause key changes the mode to \<^verbatim>\<open>PAUSED\<close> and nothing
  else; in \<^verbatim>\<open>PAUSED\<close> the same key changes the mode back and nothing else, so pause
  followed by resume gives back the game it started from, field by field. The pass of
  the main loop that pauses, and every pass while paused, leaves the snake alone.
\<close>

theorem pause_resume:
  assumes "state g = PLAYING"
  shows "handle_keydown rs p K_p g = Some (True, g\<lparr>state := PAUSED\<rparr>, p) \<and>
         handle_keydown rs p K_p (g\<lparr>state := PAUSED\<rparr>) = Some (True, g, p) \<and>
         handle_input rs p [KEYDOWN K_p, KEYDOWN K_p] g = Some (True, g, p) \<and>
         run_iteration rs p current_time [KEYDOWN K_p] g =
           Some (Inr (True, g\<lparr>state := PAUSED\<rparr>, p)) \<and>
         run_iteration rs p current_time [] (g\<lparr>state := PAUSED\<rparr>) =
           Some (Inr (True, g\<lparr>state := PAUSED\<rparr>, p))"
proof -
  have same: "g\<lparr>state := PLAYING\<rparr> = g" using assms by simp
  have pause: "handle_keydown rs p K_p g = Some (True, g\<lparr>state := PAUSED\<rparr>, p)"
    using assms by (simp add: handle_keydown_def)
  have resume: "handle_keydown rs p K_p (g\<lparr>state := PAUSED\<rparr>) = Some (True, g, p)"
    using same by (simp add: handle_keydown_def)
  show ?thesis using pause resume by (simp add: run_iteration_def)
qed

theorem pause_resume_witness:
  "handle_input (\<lambda>n. n) 0 [KEYDOWN K_p, KEYDOWN K_p] scenario_A = Some (True, scenario_A, 0) \<and>
   run_iteration (\<lambda>n. n) 0 250 [KEYDOWN K_p] scenario_A =
     Some (Inr (True, scenario_A\<lparr>state := PAUSED\<rparr>, 0))"
  using pause_resume[of scenario_A "\<lambda>n. n" 0 250]
  by (simp add: scenario_A_def init_fields_def)


section \<open>The food loop\<close>

lemma randint_range: "a \<le> b \<Longrightarrow> a \<le> randint a b r \<and> randint a b r \<le> b"
proof -
  assume ab: "a \<le> b"
  then have pos: "0 < nat (b - a + 1)" by simp
  have "r mod nat (b - a + 1) < nat (b - a + 1)" using pos by (rule mod_less_divisor)
  then have "int (r mod nat (b - a + 1)) < b - a + 1" using ab by linarith
  then show ?thesis by (simp add: randint_def)
qed

lemma food_draw_in_grid: "in_grid (food_draw rs p)"
  using randint_range[of 0 39 "rs p"] randint_range[of 0 29 "rs (p + 1)"]
  by (simp add: food_draw_def in_grid_def grid_defs)

lemma generate_food_loop_unfold:
  "generate_food_loop rs p cells =
     (if food_draw rs p \<notin> set cells then Some (food_draw rs p, p + 2)
      else generate_food_loop rs (p + 2) cells)"
  by (subst generate_food_loop.simps) (simp add: food_draw_def)

lemma generate_food_loop_finds:
  "food_draw rs (p + 2 * k) \<notin> set cells \<Longrightarrow>
   \<exists>j \<le> k. generate_food_loop rs p cells = Some (food_draw rs (p + 2 * j), p + 2 * j + 2) \<and>
           food_draw rs (p + 2 * j) \<notin> set cells"
proof (induction k arbitrary: p)
  case 0
  then show ?case by (simp add: generate_food_loop_unfold[of rs p])
next
  case (Suc k)
  show ?case
  proof (cases "food_draw rs p \<notin> set cells")
    case True
    then have "generate_food_loop rs p cells = Some (food_draw rs (p + 2 * 0), p + 2 * 0 + 2)"
      by (simp add: generate_food_loop_unfold[of rs p])
    with True show ?thesis by (intro exI[of _ 0]) simp
  next
    case False
    from Suc.prems have "food_draw rs ((p + 2) + 2 * k) \<notin> set cells" by (simp add: add.assoc)
    from Suc.IH[OF this] obtain j where j: "j \<le> k"
      "generate_food_loop rs (p + 2) cells = Some (food_draw rs (p + 2 + 2 * j), p + 2 + 2 * j + 2)"
      "food_draw rs (p + 2 + 2 * j) \<notin> set cells" by blast
    from False have "generate_food_loop rs p cells = generate_food_loop rs (p + 2) cells"
      by (simp add: generate_food_loop_unfold[of rs p])
    with j show ?thesis by (intro exI[of _ "Suc j"]) (simp add: add.assoc)
  qed
qed

lemma generate_food_loop_returns:
  assumes "finds_free_cell rs p cells"
  shows "\<exists>c p'. generate_food_loop rs p cells = Some (c, p') \<and> c \<notin> set cells \<and> in_grid c"
proof -
  from assms obtain k where "food_draw rs (p + 2 * k) \<notin> set cells"
    by (auto simp: finds_free_cell_def)
  from generate_food_loop_finds[OF this] show ?thesis
    using food_draw_in_grid by blast
qed

lemma generate_food_loop_Some:
  assumes "generate_food_loop rs p cells = Some y"
  shows "fst y \<notin> set cells \<and> in_grid (fst y)"
proof (rule generate_food_loop.raw_induct
         [where P = "\<lambda>rs p cells y. fst y \<notin> set cells \<and> in_grid (fst y)", OF _ assms])
  fix f :: "draws \<Rightarrow> nat \<Rightarrow> cell list \<Rightarrow> (cell \<times> nat) option"
  fix rs p cells y
  assume IH: "\<And>rs p cells y. f rs p cells = Some y \<Longrightarrow> fst y \<notin> set cells \<and> in_grid (fst y)"
  assume step: "(if (randint 0 (GRID_WIDTH - 1) (rs p), randint 0 (GRID_HEIGHT - 1) (rs (p + 1)))
           \<notin> set cells
      then Some ((randint 0 (GRID_WIDTH - 1) (rs p),
                  randint 0 (GRID_HEIGHT - 1) (rs (p + 1))), p + 2)
      else f rs (p + 2) cells) = Some y"
  show "fst y \<notin> set cells \<and> in_grid (fst y)"
  proof (cases "food_draw rs p \<notin> set cells")
    case True
    with step have "y = (food_draw rs p, p + 2)" by (auto simp: food_draw_def)
    with True food_draw_in_grid[of rs p] show ?thesis by simp
  next
    case False
    with step have "f rs (p + 2) cells = Some y" by (auto simp: food_draw_def)
    then show ?thesis by (rule IH)
  qed
qed


lemma food_draw_counting:
  "food_draw counting q = (int (q mod 40), int (Suc q mod 30))"
  by (simp add: food_draw_def randint_def counting_def grid_defs)

lemma keeps_finding_counting: "keeps_finding counting [(20, 15)]"
proof (unfold keeps_finding_def, intro allI)
  fix p :: nat
  show "finds_free_cell counting p [(20, 15)]"
  proof (cases "p mod 40 = 20")
    case True
    have "(p + 2) mod 40 = (p mod 40 + 2) mod 40" by (rule mod_add_left_eq[symmetric])
    with True have "(p + 2) mod 40 = 22" by simp
    then have "food_draw counting (p + 2 * 1) \<notin> set [(20, 15)]"
      by (simp add: food_draw_counting)
    then show ?thesis unfolding finds_free_cell_def by blast
  next
    case False
    then have "food_draw counting (p + 2 * 0) \<notin> set [(20, 15)]"
      by (simp add: food_draw_counting)
    then show ?thesis unfolding finds_free_cell_def by blast
  qed
qed


section \<open>Scoring\<close>

lemma answer_question_correct:
  assumes "current_question g = Some q" and "picks_answer q i" and "snake g \<noteq> []"
    and "generate_food_loop rs p (snake g @ [last (snake g)]) = Some (c, p')"
  shows "answer_question rs p i g = Some (Inr (after_correct c g, p'))"
proof -
  from assms(3) obtain x xs where "snake g = x # xs" by (cases "snake g") auto
  then show ?thesis using assms
    by (simp add: answer_question_def picks_answer_def grow_snake_def generate_food_def
                  after_correct_def Let_def)
qed


lemma stats_after_correct: "stats (after_correct c g) = stats_step (stats g)"
  by (simp add: stats_def after_correct_def)

lemma keeps_finding_grown:
  "cells \<noteq> [] \<Longrightarrow> keeps_finding rs (cells @ [last cells]) = keeps_finding rs cells"
  by (simp add: keeps_finding_def finds_free_cell_def insert_absorb)

lemma finds_free_cell_grown:
  "cells \<noteq> [] \<Longrightarrow> finds_free_cell rs p (cells @ [last cells]) = finds_free_cell rs p cells"
  by (simp add: finds_free_cell_def insert_absorb)

lemma answer_question_correct_returns:
  assumes "current_question g = Some q" and "picks_answer q i" and "snake g \<noteq> []"
    and "finds_free_cell rs p (snake g)"
  shows "\<exists>c p'. answer_question rs p i g = Some (Inr (after_correct c g, p')) \<and>
                c \<notin> set (snake g) \<and> in_grid c"
proof -
  from assms(3,4) have "finds_free_cell rs p (snake g @ [last (snake g)])"
    by (simp add: finds_free_cell_grown)
  from generate_food_loop_returns[OF this] obtain c p' where
    loop: "generate_food_loop rs p (snake g @ [last (snake g)]) = Some (c, p')"
    and c: "c \<notin> set (snake g @ [last (snake g)])" "in_grid c" by blast
  from c have "c \<notin> set (snake g)" by simp
  with answer_question_correct[OF assms(1-3) loop] c(2) show ?thesis
    by (intro exI[of _ c] exI[of _ p']) simp
qed

lemma answer_all_correct:
  assumes "list_all (\<lambda>(q, i). picks_answer q i) qs" and "snake g \<noteq> []"
    and "keeps_finding rs (snake g)"
  shows "\<exists>g' p'. answer_all rs p qs g = Some (Inr (g', p')) \<and>
           stats g' = (stats_step ^^ length qs) (stats g)"
  using assms
proof (induction qs arbitrary: g p)
  case Nil
  then show ?case by simp
next
  case (Cons x qs)
  obtain q i where x: "x = (q, i)" by (cases x)
  let ?g = "g\<lparr>current_question := Some q\<rparr>"
  from Cons.prems x have pick: "picks_answer q i" by simp
  from Cons.prems have "finds_free_cell rs p (snake ?g)" by (simp add: keeps_finding_def)
  with answer_question_correct_returns[of ?g q i rs p] pick Cons.prems(2)
  obtain c p1 where step: "answer_question rs p i ?g = Some (Inr (after_correct c ?g, p1))"
    by auto
  let ?g1 = "after_correct c ?g"
  have s1: "snake ?g1 = snake g @ [last (snake g)]" by (simp add: after_correct_def)
  have "snake ?g1 \<noteq> []" by (simp add: s1)
  moreover have "keeps_finding rs (snake ?g1)"
    using Cons.prems(2,3) by (simp add: s1 keeps_finding_grown)
  moreover have "list_all (\<lambda>(q, i). picks_answer q i) qs" using Cons.prems(1) by simp
  ultimately obtain g' p' where rest: "answer_all rs p1 qs ?g1 = Some (Inr (g', p'))"
    "stats g' = (stats_step ^^ length qs) (stats ?g1)"
    using Cons.IH[of ?g1 p1] by blast
  have "stats ?g1 = stats_step (stats g)"
    by (simp add: stats_after_correct) (simp add: stats_def)
  with rest step x show ?case by (simp add: funpow_swap1)
qed

lemma five_steps:
  "(stats_step ^^ 5) (0, 0, qc, lv, 200) = (80, 5, qc + 5, lv + 1, 190)"
proof -
  have c1: "((qc + 1) mod 5 = 0) = (qc mod 5 = 4)" by presburger
  have c2: "((2 + qc) mod 5 = 0) = (qc mod 5 = 3)" by presburger
  have c3: "((3 + qc) mod 5 = 0) = (qc mod 5 = 2)" by presburger
  have c4: "((4 + qc) mod 5 = 0) = (qc mod 5 = 1)" by presburger
  have c5: "((5 + qc) mod 5 = 0) = (qc mod 5 = 0)" by presburger
  have "qc mod 5 = 0 \<or> qc mod 5 = 1 \<or> qc mod 5 = 2 \<or> qc mod 5 = 3 \<or> qc mod 5 = 4"
    by presburger
  then show ?thesis
    by (elim disjE) (simp_all add: eval_nat_numeral c1 c2 c3 c4 c5)
qed

lemma quiz_start_fields:
  "snake quiz_start = [(20, 15)]" "streak quiz_start = 0" "score quiz_start = 0"
  "move_delay quiz_start = 200" "level quiz_start = 1"
  "current_question quiz_start = Some quiz"
  by (simp_all add: quiz_start_def init_fields_def grid_defs)

lemma quiz_streak_fields:
  "snake quiz_streak = [(20, 15)]" "streak quiz_streak = 2" "score quiz_streak = 26"
  "current_question quiz_streak = Some quiz" "questions_total quiz_streak = 2"
  by (simp_all add: quiz_streak_def quiz_start_def init_fields_def grid_defs)

lemma quiz_picks: "picks_answer quiz 0" "picks_answer quiz (- 4)"
  by (simp_all add: picks_answer_def quiz_def py_index_def)

lemma food_counting:
  "generate_food_loop counting 0 [(20, 15), (20, 15)] = Some ((0, 1), 2)"
  by (simp add: generate_food_loop_unfold food_draw_def randint_def counting_def grid_defs)

lemma quiz_start_correct:
  "answer_question counting 0 0 quiz_start = Some (Inr (after_correct (0, 1) quiz_start, 2))"
  by (rule answer_question_correct[where q = quiz])
     (simp_all add: quiz_start_fields quiz_picks food_counting)

text \<open>
  Claim C1, as the specification states it, fails: with a streak of 0 and a score of 0
  the first correct answer adds 12, not 10, since the streak is incremented before the
  bonus is computed from it.
\<close>

theorem correct_answer_score_counterexample:
  "answer_question counting 0 0 quiz_start = Some (Inr (after_correct (0, 1) quiz_start, 2)) \<and>
   streak quiz_start = 0 \<and> score quiz_start = 0 \<and>
   score (after_correct (0, 1) quiz_start) = 12 \<and>
   score quiz_start + (10 + min (streak quiz_start * 2) 20) = 10"
  using quiz_start_correct
  by (simp add: after_correct_def quiz_start_fields)

text \<open>
  Claim C1, amended. With a streak of \<open>s\<close> prior correct answers, a correct answer adds
  exactly \<open>10 + min ((s + 1) * 2) 20\<close> to the score. Five correct answers in a row from
  streak 0, score 0 and move delay 200 give score 80 and move delay 190 and raise the
  level once, whatever the count of correct answers was before. Both hold when the food
  loop of each answer finds a free cell, which it does as soon as the random source
  draws one.
\<close>

theorem correct_answer_score:
  "(current_question g = Some q \<and> picks_answer q i \<and> snake g \<noteq> [] \<and>
    finds_free_cell rs p (snake g) \<longrightarrow>
      (\<exists>g' p'. answer_question rs p i g = Some (Inr (g', p')) \<and>
         score g' = score g + (10 + min ((streak g + 1) * 2) 20) \<and>
         streak g' = streak g + 1)) \<and>
   (length qs = 5 \<and> list_all (\<lambda>(q, i). picks_answer q i) qs \<and> snake g \<noteq> [] \<and>
    keeps_finding rs (snake g) \<and> streak g = 0 \<and> score g = 0 \<and> move_delay g = 200 \<longrightarrow>
      (\<exists>g' p'. answer_all rs p qs g = Some (Inr (g', p')) \<and>
         score g' = 80 \<and> move_delay g' = 190 \<and> level g' = level g + 1 \<and> streak g' = 5))"
proof (intro conjI impI)
  assume a: "current_question g = Some q \<and> picks_answer q i \<and> snake g \<noteq> [] \<and>
    finds_free_cell rs p (snake g)"
  then obtain c p' where "answer_question rs p i g = Some (Inr (after_correct c g, p'))"
    using answer_question_correct_returns[of g q i rs p] by blast
  then show "\<exists>g' p'. answer_question rs p i g = Some (Inr (g', p')) \<and>
         score g' = score g + (10 + min ((streak g + 1) * 2) 20) \<and>
         streak g' = streak g + 1"
    by (simp add: after_correct_def)
next
  assume b: "length qs = 5 \<and> list_all (\<lambda>(q, i). picks_answer q i) qs \<and> snake g \<noteq> [] \<and>
    keeps_finding rs (snake g) \<and> streak g = 0 \<and> score g = 0 \<and> move_delay g = 200"
  then obtain g' p' where r: "answer_all rs p qs g = Some (Inr (g', p'))"
    "stats g' = (stats_step ^^ length qs) (stats g)"
    using answer_all_correct[of qs g rs p] by blast
  from b have "stats g = (0, 0, questions_correct g, level g, 200)" by (simp add: stats_def)
  with r(2) b have "stats g' = (80, 5, questions_correct g + 5, level g + 1, 190)"
    by (simp add: five_steps)
  with r(1) show "\<exists>g' p'. answer_all rs p qs g = Some (Inr (g', p')) \<and>
         score g' = 80 \<and> move_delay g' = 190 \<and> level g' = level g + 1 \<and> streak g' = 5"
    by (simp add: stats_def)
qed


theorem correct_answer_score_witness:
  "(\<exists>g' p'. answer_question counting 0 0 quiz_streak = Some (Inr (g', p')) \<and>
      score g' = 42 \<and> streak g' = 3) \<and>
   (\<exists>g' p'. answer_all counting 0 [(quiz, 0), (quiz, 0), (quiz, - 4), (quiz, 0), (quiz, 0)]
               quiz_start = Some (Inr (g', p')) \<and>
      score g' = 80 \<and> move_delay g' = 190 \<and> level g' = 2 \<and> streak g' = 5)"
proof -
  have ff: "finds_free_cell counting 0 (snake quiz_streak)"
    using keeps_finding_counting by (simp add: keeps_finding_def quiz_streak_fields)
  have kf: "keeps_finding counting (snake quiz_start)"
    using keeps_finding_counting by (simp add: quiz_start_fields)
  have a: "\<exists>g' p'. answer_question counting 0 0 quiz_streak = Some (Inr (g', p')) \<and>
      score g' = 42 \<and> streak g' = 3"
    using correct_answer_score[of quiz_streak quiz 0 counting 0 "[]"] quiz_picks(1) ff
    by (simp add: quiz_streak_fields)
  have b: "\<exists>g' p'. answer_all counting 0 [(quiz, 0), (quiz, 0), (quiz, - 4), (quiz, 0), (quiz, 0)]
               quiz_start = Some (Inr (g', p')) \<and>
      score g' = 80 \<and> move_delay g' = 190 \<and> level g' = 2 \<and> streak g' = 5"
    using correct_answer_score[of quiz_start quiz 0 counting 0
            "[(quiz, 0), (quiz, 0), (quiz, - 4), (quiz, 0), (quiz, 0)]"] quiz_picks kf
    by (simp add: quiz_start_fields del: answer_all.simps)
  from a b show ?thesis by blast
qed


lemma answer_question_wrong:
  assumes "current_question g = Some q" and "i < int (length (options q))"
    and "py_index (options q) i = Inr a" and "a \<noteq> answer q"
  shows "answer_question rs p i g =
           Some (Inr (g\<lparr>questions_total := questions_total g + 1, streak := 0,
                        current_question := None\<rparr>, p))"
  using assms by (simp add: answer_question_def Let_def)

lemma answer_question_no_question:
  "current_question g = None \<Longrightarrow> answer_question rs p i g = Some (Inr (g, p))"
  by (simp add: answer_question_def)

lemma answer_question_index_too_large:
  "current_question g = Some q \<Longrightarrow> int (length (options q)) \<le> i \<Longrightarrow>
   answer_question rs p i g = Some (Inr (g, p))"
  by (simp add: answer_question_def)

lemma answer_question_index_too_small:
  "current_question g = Some q \<Longrightarrow> i < - int (length (options q)) \<Longrightarrow>
   answer_question rs p i g = Some (Inl IndexError)"
  by (simp add: answer_question_def py_index_def)

lemma movement_key_ignored:
  assumes "state g \<in> {MENU, CATEGORY_SELECT, EDUCATION_GAME_SELECT, PYTHON_GAME_SELECT,
                        PAUSED, GAME_OVER}"
    and "k \<in> {K_UP, K_DOWN, K_LEFT, K_RIGHT}"
  shows "handle_keydown rs p k g = Some (True, g, p)"
proof -
  from assms(2) have k: "k \<noteq> K_SPACE" "k \<noteq> K_l" "k \<noteq> K_1" "k \<noteq> K_2" "k \<noteq> K_3" "k \<noteq> K_4"
    "k \<noteq> K_5" "k \<noteq> K_b" "k \<noteq> K_p" "k \<noteq> K_r" "k \<noteq> K_q" by auto
  from assms(1) show ?thesis
    by (elim insertE emptyE) (simp_all add: handle_keydown_def k)
qed

text \<open>
  Claim C2 at a wrong answer: the streak is reset, the score is as before and the
  attempt is counted, but \<^verbatim>\<open>answer_question\<close> then clears the current question, so
  the question is not left current for a retry: a second answer finds no question and
  does nothing.
\<close>

theorem wrong_answer_clears_question:
  "current_question quiz_streak = Some quiz \<and>
   answer_question counting 0 1 quiz_streak =
     Some (Inr (quiz_streak\<lparr>questions_total := 3, streak := 0, current_question := None\<rparr>, 0)) \<and>
   answer_question counting 0 1
       (quiz_streak\<lparr>questions_total := 3, streak := 0, current_question := None\<rparr>) =
     Some (Inr (quiz_streak\<lparr>questions_total := 3, streak := 0, current_question := None\<rparr>, 0))"
proof -
  have "answer_question counting 0 1 quiz_streak =
     Some (Inr (quiz_streak\<lparr>questions_total := questions_total quiz_streak + 1, streak := 0,
                  current_question := None\<rparr>, 0))"
    by (rule answer_question_wrong[where q = quiz and a = "IntVal 7"])
       (simp_all add: quiz_streak_fields quiz_def py_index_def)
  then show ?thesis
    by (simp add: quiz_streak_fields answer_question_no_question)
qed

text \<open>
  Claim C8 at a negative index: the guard of \<^verbatim>\<open>answer_question\<close> tests the upper end
  of the range only. Index \<open>-1\<close> selects the last of the four options and is handled
  as an answer; index \<open>-5\<close> raises \<^verbatim>\<open>IndexError\<close>.
\<close>

theorem negative_index_not_ignored:
  "current_question quiz_streak = Some quiz \<and>
   answer_question counting 0 (- 1) quiz_streak =
     Some (Inr (quiz_streak\<lparr>questions_total := 3, streak := 0, current_question := None\<rparr>, 0)) \<and>
   answer_question counting 0 (- 5) quiz_streak = Some (Inl IndexError)"
proof -
  have "answer_question counting 0 (- 1) quiz_streak =
     Some (Inr (quiz_streak\<lparr>questions_total := questions_total quiz_streak + 1, streak := 0,
                  current_question := None\<rparr>, 0))"
    by (rule answer_question_wrong[where q = quiz and a = "IntVal 9"])
       (simp_all add: quiz_streak_fields quiz_def py_index_def)
  moreover have "answer_question counting 0 (- 5) quiz_streak = Some (Inl IndexError)"
    by (rule answer_question_index_too_small[where q = quiz])
       (simp_all add: quiz_streak_fields quiz_def)
  ultimately show ?thesis by (simp add: quiz_streak_fields)
qed


section \<open>Starting and restarting\<close>

lemma generate_food_returns:
  assumes "finds_free_cell rs p (snake g)"
  shows "\<exists>c p'. generate_food rs p g = Some (g\<lparr>food_pos := Some c\<rparr>, p') \<and>
                c \<notin> set (snake g) \<and> in_grid c"
proof -
  from generate_food_loop_returns[OF assms] obtain c p' where
    "generate_food_loop rs p (snake g) = Some (c, p')" "c \<notin> set (snake g)" "in_grid c"
    by blast
  then show ?thesis
    by (intro exI[of _ c] exI[of _ p']) (simp add: generate_food_def)
qed

lemma start_game_returns:
  assumes "finds_free_cell rs p [(GRID_WIDTH div 2, GRID_HEIGHT div 2)]"
  shows "\<exists>g' c p'. start_game rs p g = Some (g', p') \<and>
           reset_fields g' =
             (PLAYING, [(GRID_WIDTH div 2, GRID_HEIGHT div 2)], RIGHT, RIGHT, 0, 1, 0, 0, 0,
              None, None, None) \<and>
           food_pos g' = Some c \<and> in_grid c \<and> c \<notin> set (snake g') \<and>
           best_streak g' = best_streak g"
proof -
  let ?g0 = "g\<lparr>state := PLAYING,
          snake := [(GRID_WIDTH div 2, GRID_HEIGHT div 2)],
          direction := RIGHT,
          next_direction := RIGHT,
          score := 0,
          level := 1,
          questions_correct := 0,
          questions_total := 0,
          streak := 0,
          selected_category := None,
          current_education_game := None,
          current_python_game := None\<rparr>"
  from assms have "finds_free_cell rs p (snake ?g0)" by simp
  from generate_food_returns[OF this] obtain c p' where
    gf: "generate_food rs p ?g0 = Some (?g0\<lparr>food_pos := Some c\<rparr>, p')"
    and c: "c \<notin> set (snake ?g0)" "in_grid c" by blast
  have "start_game rs p g = Some (?g0\<lparr>food_pos := Some c\<rparr>, p')"
    unfolding start_game_def by (rule gf)
  with c show ?thesis
    by (intro exI[of _ "?g0\<lparr>food_pos := Some c\<rparr>"] exI[of _ c] exI[of _ p'])
       (simp add: reset_fields_def)
qed

lemma played_fields:
  "state played = GAME_OVER" "move_delay played = 190" "best_streak played = 5"
  "level played = 2" "score played = 80"
  by (simp_all add: played_def init_fields_def)

lemma food_counting_centre:
  "generate_food_loop counting 0 [(20, 15)] = Some ((0, 1), 2)"
  by (simp add: generate_food_loop_unfold food_draw_counting)

text \<open>
  Claim C3, as the specification states it, fails: \<^verbatim>\<open>start_game\<close> assigns neither
  \<^verbatim>\<open>move_delay\<close> nor \<^verbatim>\<open>best_streak\<close>, so a restart after a round that reached
  level 2 keeps the move delay of 190 and the best streak of that round.
\<close>

theorem start_game_resets_counterexample:
  "state played = GAME_OVER \<and>
   handle_keydown counting 0 K_r played =
     Some (True, init_fields\<lparr>state := PLAYING, food_pos := Some (0, 1), best_streak := 5,
                              last_move_time := 9000, move_delay := 190\<rparr>, 2) \<and>
   move_delay init_fields = 200 \<and> best_streak init_fields = 0"
  by (simp add: handle_keydown_def restart_game_def start_game_def generate_food_def
                played_def init_fields_def grid_defs food_counting_centre)

text \<open>
  Claim C3, amended. The start key in \<^verbatim>\<open>MENU\<close> and the restart key in \<^verbatim>\<open>GAME_OVER\<close>
  reset the mode to \<^verbatim>\<open>PLAYING\<close>, the snake to the single cell at the centre of the
  grid, the heading and the pending direction to \<^verbatim>\<open>RIGHT\<close>, the score to 0, the level
  to 1, the streak and the two counts to 0 and the chosen category and mini-games to
  none, and draw fresh food on a free cell of the grid: these fields are the same after
  a start and after a restart, whatever the games before were. The best streak is
  carried over. The round starts once the food loop draws a cell other than the centre.
\<close>

theorem start_game_resets:
  assumes "state g1 = MENU" and "state g2 = GAME_OVER"
    and "finds_free_cell rs p [(GRID_WIDTH div 2, GRID_HEIGHT div 2)]"
    and "finds_free_cell rs' q [(GRID_WIDTH div 2, GRID_HEIGHT div 2)]"
  shows "\<exists>g1' p1 c1 g2' p2 c2.
           handle_keydown rs p K_SPACE g1 = Some (True, g1', p1) \<and>
           handle_keydown rs' q K_r g2 = Some (True, g2', p2) \<and>
           reset_fields g1' =
             (PLAYING, [(GRID_WIDTH div 2, GRID_HEIGHT div 2)], RIGHT, RIGHT, 0, 1, 0, 0, 0,
              None, None, None) \<and>
           reset_fields g2' = reset_fields g1' \<and>
           food_pos g1' = Some c1 \<and> in_grid c1 \<and> c1 \<notin> set (snake g1') \<and>
           food_pos g2' = Some c2 \<and> in_grid c2 \<and> c2 \<notin> set (snake g2') \<and>
           best_streak g1' = best_streak g1 \<and> best_streak g2' = best_streak g2"
proof -
  from start_game_returns[OF assms(3), of g1] obtain g1' c1 p1 where
    a: "start_game rs p g1 = Some (g1', p1)"
       "reset_fields g1' =
             (PLAYING, [(GRID_WIDTH div 2, GRID_HEIGHT div 2)], RIGHT, RIGHT, 0, 1, 0, 0, 0,
              None, None, None)"
       "food_pos g1' = Some c1" "in_grid c1" "c1 \<notin> set (snake g1')"
       "best_streak g1' = best_streak g1" by blast
  from start_game_returns[OF assms(4), of g2] obtain g2' c2 p2 where
    b: "start_game rs' q g2 = Some (g2', p2)"
       "reset_fields g2' =
             (PLAYING, [(GRID_WIDTH div 2, GRID_HEIGHT div 2)], RIGHT, RIGHT, 0, 1, 0, 0, 0,
              None, None, None)"
       "food_pos g2' = Some c2" "in_grid c2" "c2 \<notin> set (snake g2')"
       "best_streak g2' = best_streak g2" by blast
  have k1: "handle_keydown rs p K_SPACE g1 = Some (True, g1', p1)"
    using assms(1) a(1) by (simp add: handle_keydown_def)
  have k2: "handle_keydown rs' q K_r g2 = Some (True, g2', p2)"
    using assms(2) b(1) by (simp add: handle_keydown_def restart_game_def)
  from k1 k2 a(2-) b(2-) show ?thesis by (simp del: split_paired_Ex)
qed

theorem start_game_resets_witness:
  "\<exists>g1' p1 g2' p2.
     handle_keydown counting 0 K_SPACE init_fields = Some (True, g1', p1) \<and>
     handle_keydown counting 7 K_r played = Some (True, g2', p2) \<and>
     reset_fields g2' = reset_fields g1' \<and> score g2' = 0 \<and> level g2' = 1 \<and>
     best_streak g2' = 5"
proof -
  have ff: "finds_free_cell counting 0 [(GRID_WIDTH div 2, GRID_HEIGHT div 2)]"
     "finds_free_cell counting 7 [(GRID_WIDTH div 2, GRID_HEIGHT div 2)]"
    using keeps_finding_counting by (simp_all add: keeps_finding_def grid_defs)
  have m: "state init_fields = MENU" by (simp add: init_fields_def)
  from start_game_resets[OF m played_fields(1) ff] show ?thesis
    by (auto simp: reset_fields_def played_fields)
qed


section \<open>The snake after growth\<close>

text \<open>
  Claim C7, as the specification states it, fails: a correct answer grows the snake by a
  copy of its tail cell, and a tick that comes before the move delay has elapsed leaves
  the two equal cells in place.
\<close>

theorem tick_keeps_snake_ok_counterexample:
  "answer_question counting 0 0 quiz_start = Some (Inr (after_correct (0, 1) quiz_start, 2)) \<and>
   state (after_correct (0, 1) quiz_start) = PLAYING \<and>
   update_snake 100 (after_correct (0, 1) quiz_start) = Inr (after_correct (0, 1) quiz_start) \<and>
   snake (after_correct (0, 1) quiz_start) = [(20, 15), (20, 15)] \<and>
   \<not> distinct (snake (after_correct (0, 1) quiz_start))"
proof -
  have t: "last_move_time (after_correct (0, 1) quiz_start) = 0"
          "move_delay (after_correct (0, 1) quiz_start) = 200"
    by (simp_all add: after_correct_def quiz_start_def init_fields_def)
  have "update_snake 100 (after_correct (0, 1) quiz_start) = Inr (after_correct (0, 1) quiz_start)"
    by (rule update_snake_throttled) (simp add: t)
  with quiz_start_correct show ?thesis
    by (simp add: after_correct_def quiz_start_fields)
qed

lemma distinct_tail_copies_only: "distinct cells \<Longrightarrow> tail_copies_only cells"
  by (induction cells) simp_all

lemma tail_copies_only_grow:
  "cells \<noteq> [] \<Longrightarrow> tail_copies_only cells \<Longrightarrow> tail_copies_only (cells @ [last cells])"
proof (induction cells)
  case Nil
  then show ?case by simp
next
  case (Cons c cells)
  show ?case
  proof (cases "cells = []")
    case True
    then show ?thesis by simp
  next
    case False
    then have l: "last cells \<in> set cells" by simp
    from Cons.prems(2) consider
      (fresh) "c \<notin> set cells" "tail_copies_only cells" | (copies) "list_all (\<lambda>d. d = c) cells"
      by auto
    then show ?thesis
    proof cases
      case fresh
      with Cons.IH[OF False] l False show ?thesis by auto
    next
      case copies
      with l have "last cells = c" by (simp add: list_all_iff)
      with copies False show ?thesis by simp
    qed
  qed
qed

lemma tail_copies_only_butlast:
  "tail_copies_only cells \<Longrightarrow> tail_copies_only (butlast cells)"
proof (induction cells)
  case Nil
  then show ?case by simp
next
  case (Cons c cells)
  show ?case
  proof (cases "cells = []")
    case True
    then show ?thesis by simp
  next
    case False
    from Cons.prems consider
      (fresh) "c \<notin> set cells" "tail_copies_only cells" | (copies) "list_all (\<lambda>d. d = c) cells"
      by auto
    then show ?thesis
    proof cases
      case fresh
      with Cons.IH False show ?thesis by (auto dest: in_set_butlastD)
    next
      case copies
      then have "list_all (\<lambda>d. d = c) (butlast cells)"
        by (auto simp: list_all_iff dest: in_set_butlastD)
      with False show ?thesis by simp
    qed
  qed
qed

lemma update_snake_in_grid:
  assumes "list_all in_grid (snake g)" and "update_snake current_time g = Inr g'"
  shows "list_all in_grid (snake g')"
  using assms(2)
proof (cases rule: update_snake_cases)
  case idle
  with assms(1) show ?thesis by simp
next
  case (eat h)
  with assms(1) show ?thesis by simp
next
  case (move h)
  with assms(1) have "list_all in_grid (h # snake g)" by simp
  then have "list_all in_grid (butlast (h # snake g))"
    unfolding list_all_iff by (blast dest: in_set_butlastD)
  with move(3) show ?thesis by simp
qed

lemma update_snake_distinct:
  assumes "distinct (snake g)" and "update_snake current_time g = Inr g'"
  shows "distinct (snake g')"
  using assms(2)
proof (cases rule: update_snake_cases)
  case idle
  with assms(1) show ?thesis by simp
next
  case (eat h)
  with assms(1) show ?thesis by simp
next
  case (move h)
  with assms(1) have "distinct (h # snake g)" by simp
  then have "distinct (butlast (h # snake g))" by (rule distinct_butlast)
  with move(3) show ?thesis by simp
qed

lemma update_snake_tail_copies_only:
  assumes "tail_copies_only (snake g)" and "update_snake current_time g = Inr g'"
  shows "tail_copies_only (snake g')"
  using assms(2)
proof (cases rule: update_snake_cases)
  case idle
  with assms(1) show ?thesis by simp
next
  case (eat h)
  with assms(1) show ?thesis by simp
next
  case (move h)
  with assms(1) have "tail_copies_only (h # snake g)" by simp
  then have "tail_copies_only (butlast (h # snake g))" by (rule tail_copies_only_butlast)
  with move(3) show ?thesis by simp
qed

lemma grow_snake_in_grid:
  assumes "list_all in_grid (snake g)" and "grow_snake g = Inr g1"
  shows "list_all in_grid (snake g1)"
proof -
  from grow_snake_Inr[OF assms(2)] have ne: "snake g \<noteq> []"
    and s1: "snake g1 = snake g @ [last (snake g)]" by simp_all
  from ne have "last (snake g) \<in> set (snake g)" by simp
  with assms(1) show ?thesis by (simp add: s1 list_all_iff)
qed

lemma grow_snake_tail_copies_only:
  assumes "tail_copies_only (snake g)" and "grow_snake g = Inr g1"
  shows "tail_copies_only (snake g1)"
proof -
  from grow_snake_Inr[OF assms(2)] have ne: "snake g \<noteq> []"
    and s1: "snake g1 = snake g @ [last (snake g)]" by simp_all
  from tail_copies_only_grow[OF ne assms(1)] show ?thesis by (simp add: s1)
qed

lemma grow_snake_duplicates:
  assumes "grow_snake g = Inr g1"
  shows "last (snake g1) = last (butlast (snake g1)) \<and> \<not> distinct (snake g1)"
proof -
  from grow_snake_Inr[OF assms] have ne: "snake g \<noteq> []"
    and s1: "snake g1 = snake g @ [last (snake g)]" by simp_all
  from ne have "last (snake g) \<in> set (snake g)" by simp
  then show ?thesis by (simp add: s1 butlast_append)
qed

text \<open>
  Claim C7, amended. After any tick (throttled, moving, eating or colliding) every cell
  of the snake is on the grid if it was before the tick, and growth keeps the cells on
  the grid as well, so the bounds hold in every state, the ones reached after growth
  included. No two cells are equal other than copies of the tail cell at the end of the
  list: a tick from a snake with no equal cells gives a snake with no equal cells;
  growth appends a copy of the tail, so right after it the last two cells are equal;
  ticks and further growth leave only such copies; and the first tick after growth that
  moves the snake without eating removes the copy, after which the snake is again on the
  grid and free of equal cells.
\<close>

theorem tick_keeps_snake_ok:
  "(list_all in_grid (snake g) \<and> update_snake current_time g = Inr g' \<longrightarrow>
      list_all in_grid (snake g')) \<and>
   (list_all in_grid (snake g) \<and> grow_snake g = Inr g1 \<longrightarrow> list_all in_grid (snake g1)) \<and>
   (distinct (snake g) \<and> update_snake current_time g = Inr g' \<longrightarrow> distinct (snake g')) \<and>
   (grow_snake g = Inr g1 \<longrightarrow>
      last (snake g1) = last (butlast (snake g1)) \<and> \<not> distinct (snake g1)) \<and>
   (distinct (snake g) \<longrightarrow> tail_copies_only (snake g)) \<and>
   (tail_copies_only (snake g) \<and> update_snake current_time g = Inr g' \<longrightarrow>
      tail_copies_only (snake g')) \<and>
   (tail_copies_only (snake g) \<and> grow_snake g = Inr g1 \<longrightarrow> tail_copies_only (snake g1)) \<and>
   (snake_ok (snake g) \<and> grow_snake g = Inr g1 \<and>
    move_delay g1 \<le> current_time - last_move_time g1 \<and> new_head_of g1 = Some h \<and>
    in_grid h \<and> h \<notin> set (snake g1) \<and> food_pos g1 \<noteq> Some h \<longrightarrow>
      (\<exists>g2. update_snake current_time g1 = Inr g2 \<and> snake g2 = h # snake g \<and>
            snake_ok (snake g2)))"
proof (intro conjI impI)
  assume "list_all in_grid (snake g) \<and> update_snake current_time g = Inr g'"
  then show "list_all in_grid (snake g')" using update_snake_in_grid by blast
next
  assume "list_all in_grid (snake g) \<and> grow_snake g = Inr g1"
  then show "list_all in_grid (snake g1)" using grow_snake_in_grid by blast
next
  assume "distinct (snake g) \<and> update_snake current_time g = Inr g'"
  then show "distinct (snake g')" using update_snake_distinct by blast
next
  assume "grow_snake g = Inr g1"
  then show "last (snake g1) = last (butlast (snake g1))" "\<not> distinct (snake g1)"
    using grow_snake_duplicates by blast+
next
  assume "distinct (snake g)"
  then show "tail_copies_only (snake g)" by (rule distinct_tail_copies_only)
next
  assume "tail_copies_only (snake g) \<and> update_snake current_time g = Inr g'"
  then show "tail_copies_only (snake g')" using update_snake_tail_copies_only by blast
next
  assume "tail_copies_only (snake g) \<and> grow_snake g = Inr g1"
  then show "tail_copies_only (snake g1)" using grow_snake_tail_copies_only by blast
next
  assume a: "snake_ok (snake g) \<and> grow_snake g = Inr g1 \<and>
    move_delay g1 \<le> current_time - last_move_time g1 \<and> new_head_of g1 = Some h \<and>
    in_grid h \<and> h \<notin> set (snake g1) \<and> food_pos g1 \<noteq> Some h"
  then have s1: "snake g1 = snake g @ [last (snake g)]" and ne: "snake g \<noteq> []"
    using grow_snake_Inr[of g g1] by auto
  from a have "update_snake current_time g1 =
      Inr (g1\<lparr>last_move_time := current_time, direction := next_direction g1,
              snake := h # butlast (snake g1)\<rparr>)"
    using update_snake_move[of g1 current_time h] by blast
  moreover have "butlast (snake g1) = snake g" by (simp add: s1 butlast_append)
  moreover have "snake_ok (h # snake g)" using a by (simp add: snake_ok_Cons s1)
  ultimately show "\<exists>g2. update_snake current_time g1 = Inr g2 \<and> snake g2 = h # snake g \<and>
               snake_ok (snake g2)" by simp
qed


theorem tick_keeps_snake_ok_witness:
  "list_all in_grid [(10, 10), (10, 10)] \<and> tail_copies_only [(10, 10), (10, 10)] \<and>
   \<not> distinct [(10, 10), (10, 10) :: cell] \<and>
   list_all in_grid [(10, 10), (10, 10), (10, 10)] \<and>
   tail_copies_only [(10, 10), (10, 10), (10, 10)] \<and>
   distinct [(11, 10) :: cell] \<and>
   (\<exists>g2. update_snake 250 (scenario_A\<lparr>snake := [(10, 10), (10, 10)], food_pos := Some (3, 3)\<rparr>)
           = Inr g2 \<and>
         snake g2 = [(11, 10), (10, 10)] \<and> snake_ok (snake g2))"
proof -
  let ?A = "scenario_A\<lparr>food_pos := Some (3, 3)\<rparr>"
  let ?A' = "?A\<lparr>last_move_time := 250, direction := next_direction ?A,
                snake := (11, 10) # butlast (snake ?A)\<rparr>"
  let ?A1 = "scenario_A\<lparr>snake := [(10, 10), (10, 10)], food_pos := Some (3, 3)\<rparr>"
  let ?A2 = "scenario_A\<lparr>snake := [(10, 10), (10, 10), (10, 10)], food_pos := Some (3, 3)\<rparr>"
  have sA: "snake ?A = [(10, 10)]" "snake ?A' = [(11, 10)]"
    "snake ?A1 = [(10, 10), (10, 10)]" "snake ?A2 = [(10, 10), (10, 10), (10, 10)]"
    by (simp_all add: scenario_A_def init_fields_def)
  have okA: "snake_ok (snake ?A)" "list_all in_grid (snake ?A)" "distinct (snake ?A)"
    by (simp_all add: sA snake_ok_def in_grid_def grid_defs)
  have tickA: "update_snake 250 ?A = Inr ?A'"
    by (rule update_snake_move)
       (simp_all add: scenario_A_def init_fields_def new_head_of_def in_grid_def grid_defs)
  have grow: "grow_snake ?A = Inr ?A1" "grow_snake ?A1 = Inr ?A2"
    by (simp_all add: grow_snake_def scenario_A_def init_fields_def)
  have pre: "move_delay ?A1 \<le> 250 - last_move_time ?A1" "new_head_of ?A1 = Some (11, 10)"
    "in_grid (11, 10)" "(11, 10) \<notin> set (snake ?A1)" "food_pos ?A1 \<noteq> Some (11, 10)"
    by (simp_all add: scenario_A_def init_fields_def new_head_of_def in_grid_def grid_defs)
  have idle: "update_snake 100 ?A1 = Inr ?A1"
    by (rule update_snake_throttled) (simp add: scenario_A_def init_fields_def)
  from tick_keeps_snake_ok[of ?A 250 ?A' ?A1 "(11, 10)"] okA tickA grow(1) pre
  have one: "list_all in_grid (snake ?A1)" "tail_copies_only (snake ?A1)"
    "\<not> distinct (snake ?A1)" "distinct (snake ?A')"
    "\<exists>g2. update_snake 250 ?A1 = Inr g2 \<and> snake g2 = (11, 10) # snake ?A \<and>
          snake_ok (snake g2)"
    by blast+
  from tick_keeps_snake_ok[of ?A1 100 ?A1 ?A2 "(11, 10)"] one(1,2) idle grow(2)
  have two: "list_all in_grid (snake ?A2)" "tail_copies_only (snake ?A2)"
    by blast+
  from one two show ?thesis by (simp add: sA)
qed


section \<open>Arithmetic questions\<close>

lemma wrong_options_loop_unfold:
  "wrong_options_loop rs p ans opts =
     (if length opts < 4 then
        (if offset_ok ans opts (ans + randint (- 10) 10 (rs p))
         then wrong_options_loop rs (p + 1) ans (opts @ [ans + randint (- 10) 10 (rs p)])
         else wrong_options_loop rs (p + 1) ans opts)
      else Some (opts, p))"
  by (subst wrong_options_loop.simps) (simp add: offset_ok_def)

lemma opts_ok_append:
  "opts_ok ans opts \<Longrightarrow> offset_ok ans opts w \<Longrightarrow> opts_ok ans (opts @ [w])"
  by (auto simp: opts_ok_def offset_ok_def)

lemma wrong_options_loop_Some:
  assumes "wrong_options_loop rs p ans opts = Some y"
  shows "length opts \<le> 4 \<and> opts_ok ans opts \<longrightarrow> length (fst y) = 4 \<and> opts_ok ans (fst y)"
proof (rule wrong_options_loop.raw_induct
         [where P = "\<lambda>rs p ans opts y. length opts \<le> 4 \<and> opts_ok ans opts \<longrightarrow>
                        length (fst y) = 4 \<and> opts_ok ans (fst y)", OF _ assms])
  fix f :: "draws \<Rightarrow> nat \<Rightarrow> int \<Rightarrow> int list \<Rightarrow> (int list \<times> nat) option"
  fix rs p ans opts y
  assume IH: "\<And>rs p ans opts y. f rs p ans opts = Some y \<Longrightarrow>
                length opts \<le> 4 \<and> opts_ok ans opts \<longrightarrow> length (fst y) = 4 \<and> opts_ok ans (fst y)"
  assume step: "(if length opts < 4 then
        (if ans + randint (- 10) 10 (rs p) \<noteq> ans \<and>
            ans + randint (- 10) 10 (rs p) \<notin> set opts \<and>
            ans + randint (- 10) 10 (rs p) \<ge> 0
         then f rs (p + 1) ans (opts @ [ans + randint (- 10) 10 (rs p)])
         else f rs (p + 1) ans opts)
      else Some (opts, p)) = Some y"
  let ?w = "ans + randint (- 10) 10 (rs p)"
  show "length opts \<le> 4 \<and> opts_ok ans opts \<longrightarrow> length (fst y) = 4 \<and> opts_ok ans (fst y)"
  proof
    assume pre: "length opts \<le> 4 \<and> opts_ok ans opts"
    show "length (fst y) = 4 \<and> opts_ok ans (fst y)"
    proof (cases "length opts < 4")
      case False
      with step pre show ?thesis by auto
    next
      case True
      show ?thesis
      proof (cases "offset_ok ans opts ?w")
        case ok: True
        with step True have "f rs (p + 1) ans (opts @ [?w]) = Some y"
          by (simp add: offset_ok_def)
        from IH[OF this] pre True ok show ?thesis
          by (simp add: opts_ok_append)
      next
        case False
        with step True have "f rs (p + 1) ans opts = Some y"
          by (auto simp: offset_ok_def)
        from IH[OF this] pre show ?thesis by simp
      qed
    qed
  qed
qed


lemma randint_offset: "randint (- 10) 10 r = int (r mod 21) - 10"
  by (simp add: randint_def)

lemma free_offset:
  fixes ans :: int
  assumes "length opts < 4" and "ans \<in> set opts"
  shows "\<exists>d \<in> {1, 2, 3}. ans + d \<notin> set opts"
proof (rule ccontr)
  assume "\<not> (\<exists>d \<in> {1, 2, 3}. ans + d \<notin> set opts)"
  with assms(2) have "{ans, ans + 1, ans + 2, ans + 3} \<subseteq> set opts" by auto
  then have "card {ans, ans + 1, ans + 2, ans + 3} \<le> card (set opts)"
    by (intro card_mono) simp_all
  moreover have "card {ans, ans + 1, ans + 2, ans + 3} = 4" by simp
  moreover have "card (set opts) \<le> length opts" by (rule card_length)
  ultimately show False using assms(1) by simp
qed

lemma wrong_options_loop_progress:
  assumes "length opts < 4" and "rs (p + k) mod 21 = v"
    and "offset_ok ans opts (ans + (int v - 10))"
  shows "\<exists>j w. j \<le> k \<and> offset_ok ans opts w \<and>
           wrong_options_loop rs p ans opts = wrong_options_loop rs (p + j + 1) ans (opts @ [w])"
  using assms(2)
proof (induction k arbitrary: p)
  case 0
  then have "ans + randint (- 10) 10 (rs p) = ans + (int v - 10)"
    by (simp add: randint_offset)
  with assms(1,3) show ?case
    by (intro exI[of _ 0] exI[of _ "ans + (int v - 10)"])
       (simp add: wrong_options_loop_unfold[of rs p])
next
  case (Suc k)
  let ?w = "ans + randint (- 10) 10 (rs p)"
  show ?case
  proof (cases "offset_ok ans opts ?w")
    case True
    with assms(1) show ?thesis
      by (intro exI[of _ 0] exI[of _ ?w]) (simp add: wrong_options_loop_unfold[of rs p])
  next
    case False
    from Suc.prems have "rs ((p + 1) + k) mod 21 = v" by simp
    from Suc.IH[OF this] obtain j w where j: "j \<le> k" "offset_ok ans opts w"
      "wrong_options_loop rs (p + 1) ans opts =
         wrong_options_loop rs (p + 1 + j + 1) ans (opts @ [w])" by blast
    from False assms(1) have "wrong_options_loop rs p ans opts =
        wrong_options_loop rs (p + 1) ans opts"
      by (simp add: wrong_options_loop_unfold[of rs p])
    with j show ?thesis
      by (intro exI[of _ "Suc j"] exI[of _ w]) simp
  qed
qed

lemma wrong_options_loop_returns:
  assumes "every_offset_recurs rs" and "0 \<le> ans"
  shows "ans \<in> set opts \<Longrightarrow> \<exists>y. wrong_options_loop rs p ans opts = Some y"
proof (induction "4 - length opts" arbitrary: opts p)
  case 0
  then show ?case by (simp add: wrong_options_loop_unfold[of rs p])
next
  case (Suc n)
  then have short: "length opts < 4" by simp
  from free_offset[OF short Suc.prems] obtain d where
    d: "d \<in> {1, 2, 3}" "ans + d \<notin> set opts" by blast
  define v where "v = nat (d + 10)"
  from d(1) have v: "v < 21" "int v - 10 = d" by (auto simp: v_def)
  from assms(1) v(1) obtain k where k: "rs (p + k) mod 21 = v"
    unfolding every_offset_recurs_def by blast
  from d assms(2) have ok: "offset_ok ans opts (ans + (int v - 10))"
    by (auto simp: offset_ok_def v(2))
  from wrong_options_loop_progress[of opts rs p k v ans] short k ok obtain j w where
    step: "wrong_options_loop rs p ans opts =
             wrong_options_loop rs (p + j + 1) ans (opts @ [w])" by blast
  from Suc.hyps(2) have "n = 4 - length (opts @ [w])" by simp
  moreover from Suc.prems have "ans \<in> set (opts @ [w])" by simp
  ultimately have "\<exists>y. wrong_options_loop rs (p + j + 1) ans (opts @ [w]) = Some y"
    by (rule Suc.hyps(1))
  with step show ?case by simp
qed

lemma shuffle_from_permutes:
  "i < length xs \<Longrightarrow> shuffle_from rs p i xs = (ys, p') \<Longrightarrow>
   length ys = length xs \<and> set ys = set xs \<and> (distinct ys \<longleftrightarrow> distinct xs)"
proof (induction i arbitrary: xs p)
  case 0
  then show ?case by simp
next
  case (Suc i)
  define j where "j = rs p mod (Suc i + 1)"
  define zs where "zs = xs[Suc i := xs ! j, j := xs ! Suc i]"
  have "j < Suc i + 1" unfolding j_def by (rule mod_less_divisor) simp
  with Suc.prems(1) have j: "j < length xs" by linarith
  have rec: "shuffle_from rs (p + 1) i zs = (ys, p')"
    using Suc.prems(2) unfolding zs_def j_def by (simp only: shuffle_from.simps)
  have len: "length zs = length xs" unfolding zs_def by simp
  with Suc.prems(1) have "i < length zs" by linarith
  from Suc.IH[OF this rec]
  have ih: "length ys = length zs \<and> set ys = set zs \<and> (distinct ys \<longleftrightarrow> distinct zs)" .
  have s: "set zs = set xs" unfolding zs_def using Suc.prems(1) j by (rule set_swap)
  have d: "distinct zs \<longleftrightarrow> distinct xs" unfolding zs_def using Suc.prems(1) j
    by (rule distinct_swap)
  from ih len s d show ?case by simp
qed

lemma shuffle_permutes:
  assumes "shuffle rs p xs = (ys, p')"
  shows "length ys = length xs \<and> set ys = set xs \<and> (distinct ys \<longleftrightarrow> distinct xs)"
proof (cases xs)
  case Nil
  with assms show ?thesis by (simp add: shuffle_def)
next
  case (Cons x xs')
  then have less: "length xs - 1 < length xs" by simp
  from assms have "shuffle_from rs p (length xs - 1) xs = (ys, p')"
    by (simp only: shuffle_def)
  with less show ?thesis by (rule shuffle_from_permutes)
qed

lemma choice_two: "choice [x, y] r = x \<or> choice [x, y] r = y"
proof -
  have "r mod Suc (Suc 0) < Suc (Suc 0)" by (rule mod_less_divisor) simp
  then have "r mod Suc (Suc 0) = 0 \<or> r mod Suc (Suc 0) = Suc 0" by linarith
  then show ?thesis by (auto simp: choice_def)
qed

lemma math_problem_nonneg: "0 \<le> snd (fst (math_problem dif rs p))"
proof -
  have r1: "1 \<le> randint 1 20 (rs p)" "1 \<le> randint 1 20 (rs (p + 1))"
    using randint_range[of 1 20] by simp_all
  have r2: "2 \<le> randint 2 12 (rs p)" "2 \<le> randint 2 12 (rs (p + 1))"
    using randint_range[of 2 12] by simp_all
  show ?thesis
  proof (cases "dif \<le> 3")
    case True
    with r1 show ?thesis by (simp add: math_problem_def Let_def)
  next
    case hi: False
    show ?thesis
    proof (cases "dif \<le> 6")
      case True
      with hi r2 show ?thesis by (simp add: math_problem_def Let_def)
    next
      case False
      with hi choice_two[of square_operation root_operation "rs p"] show ?thesis
        by (auto simp: math_problem_def square_operation_def root_operation_def int_sqrt_def)
    qed
  qed
qed

lemma generate_math_question_Some:
  assumes "generate_math_question dif rs p = Some (q, p')"
  shows "good_math_question q"
proof -
  obtain prm ans p1 where mp: "math_problem dif rs p = ((prm, ans), p1)"
    by (metis prod.exhaust)
  with math_problem_nonneg[of dif rs p] have nn: "0 \<le> ans" by simp
  from assms mp obtain opts p2 where
    loop: "wrong_options_loop rs p1 ans [ans] = Some (opts, p2)"
    by (auto simp: generate_math_question_def split: option.splits)
  obtain opts' p3 where sh: "shuffle rs p2 opts = (opts', p3)" by force
  from assms mp loop sh have q: "answer q = IntVal ans" "options q = map IntVal opts'"
    by (auto simp: generate_math_question_def)
  from nn have "opts_ok ans [ans]" by (simp add: opts_ok_def)
  with wrong_options_loop_Some[OF loop] have o: "length opts = 4" "opts_ok ans opts" by simp_all
  from shuffle_permutes[OF sh] o
  have o': "length opts' = 4" "distinct opts'" "set opts' = set opts"
    by (simp_all add: opts_ok_def)
  from o(2) o'(3) have "list_all (\<lambda>x. 0 \<le> x) opts'" "ans \<in> set opts'"
    by (simp_all add: opts_ok_def list_all_iff)
  with o' nn q show ?thesis
    by (simp add: good_math_question_def distinct_map inj_on_def list_all_iff)
qed

lemma every_offset_recurs_counting: "every_offset_recurs counting"
proof (unfold every_offset_recurs_def, intro allI impI)
  fix p v :: nat
  assume v: "v < 21"
  obtain a b where ab: "p = 21 * a + b" "b < 21"
  proof
    show "p = 21 * (p div 21) + p mod 21" by simp
    show "p mod 21 < 21" by simp
  qed
  from ab have "p + (v + (21 - b)) = v + 21 * (a + 1)" by simp
  moreover have "(v + 21 * (a + 1)) mod 21 = v mod 21" by (rule mod_mult_self2)
  ultimately have "(p + (v + (21 - b))) mod 21 = v mod 21" by (simp only:)
  with v have "counting (p + (v + (21 - b))) mod 21 = v"
    by (simp add: counting_def)
  then show "\<exists>k. counting (p + k) mod 21 = v" by blast
qed

lemma math_question_counting:
  "generate_math_question 2 counting 0 =
     Some (\<lparr>question = Plus 1 2, answer = IntVal 3,
            options = [IntVal 0, IntVal 3, IntVal 2, IntVal 1],
            difficulty = 2, subject = ''math''\<rparr>, 13)"
  by code_simp

text \<open>
  Claim C6. For every difficulty tier and every random source, a question that
  \<^verbatim>\<open>generate_math_question\<close> returns has exactly four options, pairwise distinct
  non-negative integers, one of them the answer, and the answer is non-negative. The
  loop that adds the wrong options draws until it has four; it ends, and the function
  returns such a question, for every random source in which each of the 21 offsets
  keeps turning up, as the draws of \<^verbatim>\<open>random.randint\<close> do.
\<close>

theorem generate_math_question_good:
  "(generate_math_question dif rs p = Some (q, p') \<longrightarrow> good_math_question q) \<and>
   (every_offset_recurs rs \<longrightarrow>
      (\<exists>q p'. generate_math_question dif rs p = Some (q, p') \<and> good_math_question q))"
proof (intro conjI impI)
  assume "generate_math_question dif rs p = Some (q, p')"
  then show "good_math_question q" by (rule generate_math_question_Some)
next
  assume fair: "every_offset_recurs rs"
  obtain prm ans p1 where mp: "math_problem dif rs p = ((prm, ans), p1)"
    by (metis prod.exhaust)
  with math_problem_nonneg[of dif rs p] have nn: "0 \<le> ans" by simp
  have "ans \<in> set [ans]" by simp
  from wrong_options_loop_returns[OF fair nn this] obtain opts p2 where
    loop: "wrong_options_loop rs p1 ans [ans] = Some (opts, p2)" by force
  obtain opts' p3 where sh: "shuffle rs p2 opts = (opts', p3)" by force
  from mp loop sh have "\<exists>q p'. generate_math_question dif rs p = Some (q, p')"
    by (simp add: generate_math_question_def)
  then show "\<exists>q p'. generate_math_question dif rs p = Some (q, p') \<and> good_math_question q"
    using generate_math_question_Some by blast
qed

theorem generate_math_question_good_witness:
  "every_offset_recurs counting \<and>
   good_math_question \<lparr>question = Plus 1 2, answer = IntVal 3,
            options = [IntVal 0, IntVal 3, IntVal 2, IntVal 1],
            difficulty = 2, subject = ''math''\<rparr> \<and>
   (\<exists>q p'. generate_math_question 9 counting 5 = Some (q, p') \<and> good_math_question q)"
  using generate_math_question_good[of 2 counting 0
          "\<lparr>question = Plus 1 2, answer = IntVal 3,
            options = [IntVal 0, IntVal 3, IntVal 2, IntVal 1],
            difficulty = 2, subject = ''math''\<rparr>" 13]
        generate_math_question_good[of 9 counting 5
          "\<lparr>question = Plus 1 2, answer = IntVal 3,
            options = [IntVal 0, IntVal 3, IntVal 2, IntVal 1],
            difficulty = 2, subject = ''math''\<rparr>" 13]
        every_offset_recurs_counting math_question_counting
  by simp


end
